theory Spec2Isabelle
  imports Complex_Main "HOL-Library.Word"
begin

section \<open>Values of the host language\<close>

text \<open>
  The page script \<^verbatim>\<open>script.js\<close> is embedded function by function. A JavaScript
  string is a sequence of 16-bit code units, and \<^verbatim>\<open>length\<close>, \<^verbatim>\<open>trim\<close> and a regular
  expression without the \<^verbatim>\<open>u\<close> flag all work on code units, so a string of the page
  is a list of 16-bit words. Literals of the script are written as HOL strings and
  converted with \<open>js\<close>.
\<close>

type_synonym jsstring = "16 word list"

definition js :: "string \<Rightarrow> jsstring" where
  "js s = map (\<lambda>c. of_nat (of_char c)) s"

text \<open>
  ECMAScript's WhiteSpace and LineTerminator code units: what \<^verbatim>\<open>String.prototype.trim\<close>
  strips and what \<^verbatim>\<open>\s\<close> matches.
\<close>

definition isWhiteSpace :: "16 word \<Rightarrow> bool" where
  "isWhiteSpace c =
     (c = 0x09 \<or> c = 0x0A \<or> c = 0x0B \<or> c = 0x0C \<or> c = 0x0D \<or> c = 0x20 \<or> c = 0xA0
      \<or> c = 0x1680 \<or> (0x2000 \<le> c \<and> c \<le> 0x200A) \<or> c = 0x2028 \<or> c = 0x2029
      \<or> c = 0x202F \<or> c = 0x205F \<or> c = 0x3000 \<or> c = 0xFEFF)"

definition trim :: "jsstring \<Rightarrow> jsstring" where
  "trim s = rev (dropWhile isWhiteSpace (rev (dropWhile isWhiteSpace s)))"

text \<open>
  A JavaScript number is modelled as a real number, or one of the three values a
  division by zero or an overflow produces; the sign of zero is not modelled. The
  operations below are the exact ones. The rounding of binary floating point is
  written out, with \<open>fround\<close> and \<open>binary64\<close>, where the script stores into a
  \<^verbatim>\<open>Float32Array\<close> and where it steers the camera.
\<close>

datatype jsnum = Num real | PosInf | NegInf | NaN

fun jneg :: "jsnum \<Rightarrow> jsnum" where
  "jneg (Num a) = Num (- a)"
| "jneg PosInf = NegInf"
| "jneg NegInf = PosInf"
| "jneg NaN = NaN"

fun jadd :: "jsnum \<Rightarrow> jsnum \<Rightarrow> jsnum" where
  "jadd (Num a) (Num b) = Num (a + b)"
| "jadd NaN _ = NaN"
| "jadd _ NaN = NaN"
| "jadd PosInf NegInf = NaN"
| "jadd NegInf PosInf = NaN"
| "jadd PosInf _ = PosInf"
| "jadd NegInf _ = NegInf"
| "jadd _ PosInf = PosInf"
| "jadd _ NegInf = NegInf"

definition jsub :: "jsnum \<Rightarrow> jsnum \<Rightarrow> jsnum" where
  "jsub a b = jadd a (jneg b)"

definition jinf :: "bool \<Rightarrow> jsnum" where
  "jinf positive = (if positive then PosInf else NegInf)"

fun jmul :: "jsnum \<Rightarrow> jsnum \<Rightarrow> jsnum" where
  "jmul (Num a) (Num b) = Num (a * b)"
| "jmul NaN _ = NaN"
| "jmul _ NaN = NaN"
| "jmul PosInf (Num b) = (if b = 0 then NaN else jinf (0 < b))"
| "jmul NegInf (Num b) = (if b = 0 then NaN else jinf (b < 0))"
| "jmul (Num a) PosInf = (if a = 0 then NaN else jinf (0 < a))"
| "jmul (Num a) NegInf = (if a = 0 then NaN else jinf (a < 0))"
| "jmul PosInf PosInf = PosInf"
| "jmul NegInf NegInf = PosInf"
| "jmul PosInf NegInf = NegInf"
| "jmul NegInf PosInf = NegInf"

text \<open>
  \<^verbatim>\<open>a / n\<close> for a viewport dimension \<open>n\<close>, a non-negative integer: the quotient,
  and for \<open>n = 0\<close> an infinity of the sign of \<open>a\<close>, or NaN when \<open>a\<close> is zero too.
\<close>

definition jdiv_dim :: "real \<Rightarrow> nat \<Rightarrow> jsnum" where
  "jdiv_dim a n =
     (if n = 0 then (if a = 0 then NaN else jinf (0 < a)) else Num (a / real n))"

text \<open>
  Rounding to nearest, ties to even, in a binary format of \<open>p\<close> bits of precision
  whose smallest normal exponent is \<open>emin\<close>; below it the spacing is that of the
  subnormal numbers. \<open>rne\<close> rounds to an integer; \<open>round_to\<close> scales by the unit in
  the last place of the binade of \<open>x\<close>. The exponent is not bounded above:
  \<open>binary64\<close> maps a result beyond the largest finite double to an infinity.
  \<open>representable\<close> are the values of the format.
\<close>

definition rne :: "real \<Rightarrow> int" where
  "rne y =
     (let f = \<lfloor>y\<rfloor>; r = y - of_int f
      in if r < 1 / 2 then f else if 1 / 2 < r then f + 1 else if even f then f else f + 1)"

definition round_to :: "nat \<Rightarrow> int \<Rightarrow> real \<Rightarrow> real" where
  "round_to p emin x =
     (if x = 0 then 0
      else let e = max \<lfloor>log 2 \<bar>x\<bar>\<rfloor> emin - (int p - 1)
           in of_int (rne (x / 2 powi e)) * 2 powi e)"

definition representable :: "nat \<Rightarrow> int \<Rightarrow> real \<Rightarrow> bool" where
  "representable p emin g =
     (\<exists>m e. g = of_int m * 2 powi e \<and> \<bar>m\<bar> \<le> 2 ^ p \<and> emin - (int p - 1) \<le> e)"

text \<open>binary64, the format of a JavaScript number, and binary32 (\<^verbatim>\<open>Math.fround\<close>).\<close>

definition fl64 :: "real \<Rightarrow> real" where
  "fl64 = round_to 53 (- 1022)"

definition fround :: "real \<Rightarrow> real" where
  "fround = round_to 24 (- 126)"

definition binary64 :: "jsnum \<Rightarrow> jsnum" where
  "binary64 v =
     (case v of
        Num x \<Rightarrow> (if 2 ^ 1024 \<le> \<bar>fl64 x\<bar> then jinf (0 < x) else Num (fl64 x))
      | _ \<Rightarrow> v)"

datatype js_error = Error jsstring | TypeError | RangeError | ReferenceError | NotFoundError

text \<open>
  A call either returns, or throws with the mutations it made so far in place.
\<close>

datatype 's outcome = Returned 's | Thrown js_error 's

fun andThen :: "'s outcome \<Rightarrow> ('s \<Rightarrow> 's outcome) \<Rightarrow> 's outcome" where
  "andThen (Returned s) f = f s"
| "andThen (Thrown e s) f = Thrown e s"

fun state_of :: "'s outcome \<Rightarrow> 's" where
  "state_of (Returned s) = s"
| "state_of (Thrown e s) = s"

fun returned :: "'s outcome \<Rightarrow> bool" where
  "returned (Returned s) = True"
| "returned (Thrown e s) = False"

section \<open>Regular expressions\<close>

text \<open>
  The patterns of the script use character classes, literals, concatenation and
  \<^verbatim>\<open>+\<close>. \<^verbatim>\<open>RegExp.prototype.test\<close> on a pattern enclosed in \<^verbatim>\<open>^\<close> and \<^verbatim>\<open>$\<close> (no
  flags) holds exactly when the whole string matches; it is decided here by
  derivatives.
\<close>

datatype rx = Zero | One | Sym "16 word \<Rightarrow> bool" | Alt rx rx | Seq rx rx | Star rx

fun nullable :: "rx \<Rightarrow> bool" where
  "nullable Zero = False"
| "nullable One = True"
| "nullable (Sym p) = False"
| "nullable (Alt r s) = (nullable r \<or> nullable s)"
| "nullable (Seq r s) = (nullable r \<and> nullable s)"
| "nullable (Star r) = True"

fun deriv :: "16 word \<Rightarrow> rx \<Rightarrow> rx" where
  "deriv c Zero = Zero"
| "deriv c One = Zero"
| "deriv c (Sym p) = (if p c then One else Zero)"
| "deriv c (Alt r s) = Alt (deriv c r) (deriv c s)"
| "deriv c (Seq r s) =
     (if nullable r then Alt (Seq (deriv c r) s) (deriv c s) else Seq (deriv c r) s)"
| "deriv c (Star r) = Seq (deriv c r) (Star r)"

fun regex_test :: "rx \<Rightarrow> jsstring \<Rightarrow> bool" where
  "regex_test r [] = nullable r"
| "regex_test r (c # cs) = regex_test (deriv c r) cs"

definition plus :: "rx \<Rightarrow> rx" where
  "plus r = Seq r (Star r)"

definition lit :: "char \<Rightarrow> rx" where
  "lit ch = Sym (\<lambda>c. c = of_nat (of_char ch))"

text \<open>The class \<^verbatim>\<open>[^\s@]\<close>.\<close>

definition notSpaceAt :: "16 word \<Rightarrow> bool" where
  "notSpaceAt c = (\<not> isWhiteSpace c \<and> c \<noteq> 0x40)"

text \<open>\<^verbatim>\<open>/^[^\s@]+@[^\s@]+\.[^\s@]+$/\<close>\<close>

definition emailRegex :: rx where
  "emailRegex =
     Seq (plus (Sym notSpaceAt))
       (Seq (lit CHR ''@'')
         (Seq (plus (Sym notSpaceAt))
           (Seq (lit CHR ''.'') (plus (Sym notSpaceAt)))))"

text \<open>The language of a pattern, the reference the matcher is proved against.\<close>

inductive_set star :: "jsstring set \<Rightarrow> jsstring set" for L :: "jsstring set" where
  star_nil: "[] \<in> star L"
| star_app: "u \<in> L \<Longrightarrow> v \<in> star L \<Longrightarrow> u @ v \<in> star L"

fun lang :: "rx \<Rightarrow> jsstring set" where
  "lang Zero = {}"
| "lang One = {[]}"
| "lang (Sym p) = {[c] | c. p c}"
| "lang (Alt r s) = lang r \<union> lang s"
| "lang (Seq r s) = {u @ v | u v. u \<in> lang r \<and> v \<in> lang s}"
| "lang (Star r) = star (lang r)"

text \<open>
  The shape \<open>local@domain.tld\<close>: three non-empty parts free of white space and
  \<open>@\<close>, joined by one \<open>@\<close> and one dot.
\<close>

definition email_shape :: "jsstring \<Rightarrow> bool" where
  "email_shape v =
     (\<exists>l d t. v = l @ js ''@'' @ d @ js ''.'' @ t
        \<and> l \<noteq> [] \<and> d \<noteq> [] \<and> t \<noteq> []
        \<and> list_all notSpaceAt l \<and> list_all notSpaceAt d \<and> list_all notSpaceAt t)"

section \<open>ContactForm\<close>

text \<open>
  The markup of the page is not part of the sources: every field is taken to sit
  in a \<^verbatim>\<open>.form-group\<close> that holds an \<^verbatim>\<open>.error-message\<close> element, as the script
  expects. A field carries its \<^verbatim>\<open>name\<close> attribute, its current and default value,
  and the class list and error text of its group.
\<close>

record field =
  fieldName :: jsstring
  fieldValue :: jsstring
  defaultValue :: jsstring
  classList :: "string list"
  errorText :: jsstring

definition classList_remove :: "string list \<Rightarrow> string list \<Rightarrow> string list" where
  "classList_remove tokens cl = filter (\<lambda>t. t \<notin> set tokens) cl"

definition classList_add :: "string \<Rightarrow> string list \<Rightarrow> string list" where
  "classList_add t cl = (if t \<in> set cl then cl else cl @ [t])"

definition setFieldStatus :: "field \<Rightarrow> bool \<Rightarrow> jsstring \<Rightarrow> field" where
  "setFieldStatus f isValid errorMessage =
     (let f1 = f\<lparr>classList := classList_remove [''error'', ''success''] (classList f)\<rparr> in
      if \<not> isValid then
        f1\<lparr>classList := classList_add ''error'' (classList f1), errorText := errorMessage\<rparr>
      else if trim (fieldValue f) \<noteq> [] then
        f1\<lparr>classList := classList_add ''success'' (classList f1), errorText := []\<rparr>
      else f1)"

text \<open>
  The \<^verbatim>\<open>switch\<close> of \<^verbatim>\<open>validateField\<close>: the verdict and the message it hands to
  \<^verbatim>\<open>setFieldStatus\<close>. A field of any other name is valid.
\<close>

definition checkField :: "jsstring \<Rightarrow> jsstring \<Rightarrow> bool \<times> jsstring" where
  "checkField fname v =
     (if fname = js ''name'' then
        (if length v < 2 then (False, js ''Name must be at least 2 characters long'')
         else (True, []))
      else if fname = js ''email'' then
        (if \<not> regex_test emailRegex v then (False, js ''Please enter a valid email address'')
         else (True, []))
      else if fname = js ''message'' then
        (if length v < 10 then (False, js ''Message must be at least 10 characters long'')
         else (True, []))
      else (True, []))"

definition validateField :: "field \<Rightarrow> bool \<times> field" where
  "validateField f =
     (let v = trim (fieldValue f);
          (isValid, errorMessage) = checkField (fieldName f) v
      in (isValid, setFieldStatus f isValid errorMessage))"

definition clearError :: "field \<Rightarrow> field" where
  "clearError f = f\<lparr>classList := classList_remove [''error''] (classList f), errorText := []\<rparr>"

record form_data =
  dataName :: jsstring
  dataEmail :: jsstring
  dataMessage :: jsstring

text \<open>
  The form: its three fields in the order of \<^verbatim>\<open>this.fields\<close>, the flag, the submit
  button with its two labels, the notification on the page, and the submission
  whose promise has not resolved yet (\<^verbatim>\<open>submitForm\<close> resolves it after 1500 ms).
\<close>

record contact_form =
  nameField :: field
  emailField :: field
  messageField :: field
  isSubmitting :: bool
  submitDisabled :: bool
  buttonTextDisplay :: string
  buttonLoaderDisplay :: string
  notification :: "(jsstring \<times> string) option"
  inFlight :: "form_data option"
  consoleLog :: "form_data list"

definition setLoading :: "bool \<Rightarrow> contact_form \<Rightarrow> contact_form" where
  "setLoading loading s =
     (let s1 = s\<lparr>isSubmitting := loading, submitDisabled := loading\<rparr> in
      if loading then s1\<lparr>buttonTextDisplay := ''none'', buttonLoaderDisplay := ''inline-block''\<rparr>
      else s1\<lparr>buttonTextDisplay := ''inline'', buttonLoaderDisplay := ''none''\<rparr>)"

text \<open>
  \<^verbatim>\<open>showNotification\<close> removes the notifications on the page and adds the new one;
  its timers (slide in, hide after 3000 ms) are not modelled.
\<close>

definition showNotification :: "jsstring \<Rightarrow> string \<Rightarrow> contact_form \<Rightarrow> contact_form" where
  "showNotification message type s = s\<lparr>notification := Some (message, type)\<rparr>"

text \<open>
  \<^verbatim>\<open>Object.values(this.fields).every(field => this.validateField(field))\<close>: the
  fields in order, stopping at the first invalid one.
\<close>

definition validateAll :: "contact_form \<Rightarrow> bool \<times> contact_form" where
  "validateAll s =
     (let (v1, f1) = validateField (nameField s); s1 = s\<lparr>nameField := f1\<rparr> in
      if \<not> v1 then (False, s1)
      else let (v2, f2) = validateField (emailField s1); s2 = s1\<lparr>emailField := f2\<rparr> in
        if \<not> v2 then (False, s2)
        else let (v3, f3) = validateField (messageField s2); s3 = s2\<lparr>messageField := f3\<rparr> in
          (v3, s3))"

text \<open>
  \<^verbatim>\<open>handleSubmit\<close> up to its \<^verbatim>\<open>await\<close>. \<^verbatim>\<open>e.preventDefault()\<close> acts on the event, not
  on the form. An invalid form throws, and \<^verbatim>\<open>catch\<close> and \<^verbatim>\<open>finally\<close> run at once; a
  valid one leaves the submission in flight.
\<close>

definition handleSubmit :: "contact_form \<Rightarrow> contact_form" where
  "handleSubmit s =
     (if isSubmitting s then s
      else
        let s1 = setLoading True s;
            (isValid, s2) = validateAll s1
        in if \<not> isValid then
             setLoading False
               (showNotification (js ''Please fill all required fields correctly'') ''error'' s2)
           else
             s2\<lparr>inFlight := Some \<lparr>dataName = trim (fieldValue (nameField s2)),
                                  dataEmail = trim (fieldValue (emailField s2)),
                                  dataMessage = trim (fieldValue (messageField s2))\<rparr>\<rparr>)"

definition resetField :: "field \<Rightarrow> field" where
  "resetField f =
     f\<lparr>fieldValue := defaultValue f,
       classList := classList_remove [''error'', ''success''] (classList f)\<rparr>"

text \<open>
  The rest of \<^verbatim>\<open>handleSubmit\<close>, run when the promise of \<^verbatim>\<open>submitForm\<close> resolves:
  the log line of \<^verbatim>\<open>submitForm\<close>, the success notification, \<^verbatim>\<open>form.reset()\<close>, the
  classes, and \<^verbatim>\<open>finally\<close>.
\<close>

definition submitResolved :: "contact_form \<Rightarrow> contact_form" where
  "submitResolved s =
     (case inFlight s of
        None \<Rightarrow> s
      | Some d \<Rightarrow>
          let s1 = s\<lparr>consoleLog := consoleLog s @ [d], inFlight := None\<rparr>;
              s2 = showNotification (js ''Thank you for contacting me'') ''success'' s1;
              s3 = s2\<lparr>nameField := resetField (nameField s2),
                      emailField := resetField (emailField s2),
                      messageField := resetField (messageField s2)\<rparr>
          in setLoading False s3)"

section \<open>Background3D: the scene and its host\<close>

text \<open>
  The tunables of \<^verbatim>\<open>this.config\<close>. The script fixes them to \<open>default_config\<close>; the
  operations read them from the controller, so they are stated for any values.
\<close>

record scene_config =
  particleCount :: nat
  particleSize :: real
  particleColor :: nat
  particleOpacity :: real
  cameraFOV :: real
  cameraDistance :: real
  rotationSpeed :: real
  floatingSpeed :: real
  mouseEffect :: real

definition default_config :: scene_config where
  "default_config =
     \<lparr>particleCount = 2000, particleSize = 2 / 100, particleColor = 0x667eea,
      particleOpacity = 8 / 10, cameraFOV = 60, cameraDistance = 15,
      rotationSpeed = 5 / 10000, floatingSpeed = 2 / 1000, mouseEffect = 2 / 100\<rparr>"

text \<open>
  What the script reads from the browser when it runs: whether the global
  \<^verbatim>\<open>THREE\<close> is defined (the script uses the rendering library and never loads it;
  a reference to an undefined global is a \<^verbatim>\<open>ReferenceError\<close>), the WebGL probe of
  \<^verbatim>\<open>isWebGLAvailable\<close>, the viewport, \<^verbatim>\<open>document.hidden\<close>, the two clock readings
  of a tick (milliseconds), the outcomes of \<^verbatim>\<open>Math.random()\<close> in call order, and the
  longest typed array the engine allocates (a longer one is a \<^verbatim>\<open>RangeError\<close>).
\<close>

datatype probe = Context | NoContext | ProbeThrows

record host =
  threeDefined :: bool
  hasWebGLRenderingContext :: bool
  getContext :: "string \<Rightarrow> probe"
  innerWidth :: nat
  innerHeight :: nat
  devicePixelRatio :: real
  documentHidden :: bool
  nowDelta :: real
  nowElapsed :: real
  random :: "nat \<Rightarrow> real"
  typedArrayLimit :: nat

definition isWebGLAvailable :: "host \<Rightarrow> bool" where
  "isWebGLAvailable h =
     (if \<not> hasWebGLRenderingContext h then False
      else case getContext h ''webgl'' of
             ProbeThrows \<Rightarrow> False
           | Context \<Rightarrow> True
           | NoContext \<Rightarrow>
               (case getContext h ''experimental-webgl'' of Context \<Rightarrow> True | _ \<Rightarrow> False))"

text \<open>
  \<^verbatim>\<open>new Float32Array(n)\<close> holds \<open>n\<close> zeros. Its elements are binary32 numbers: a
  store converts the number with \<open>fround\<close>, which the loop that fills the array
  writes out.
\<close>

definition Float32Array :: "host \<Rightarrow> nat \<Rightarrow> real list option" where
  "Float32Array h n = (if typedArrayLimit h < n then None else Some (replicate n 0))"

subsection \<open>Objects of the rendering library\<close>

text \<open>
  The rendering library is a collaborator: its objects are modelled by the state the
  script reads and writes, and its calls by their documented effect.
  \<^verbatim>\<open>rotateOnAxis\<close> is recorded as the pair of its arguments; \<^verbatim>\<open>dispose\<close> and
  \<^verbatim>\<open>render\<close> are counted. The script never reads the components of a rotation
  axis: an axis is kept as what it is, the result of \<^verbatim>\<open>Vector3.normalize\<close> on the
  sampled vector, and the arithmetic of the library is not part of the model.
\<close>

datatype Vector3 = Vector3 (vx: real) (vy: real) (vz: real)

datatype direction = Normalized Vector3

datatype geometry_kind =
    TorusGeometry real real nat nat
  | OctahedronGeometry real nat
  | TetrahedronGeometry real nat
  | IcosahedronGeometry real nat

text \<open>
  A floating solid: the mesh with its geometry and its own clone of the material
  (the \<^verbatim>\<open>time\<close> uniform, the dispose counts), its position, its \<^verbatim>\<open>userData\<close>, and
  the rotations applied to it.
\<close>

record mesh =
  meshGeometry :: geometry_kind
  geometryDisposed :: nat
  materialTime :: real
  materialDisposed :: nat
  position :: Vector3
  initialY :: real
  speed :: real
  offset :: real
  rotationAxis :: direction
  rotations :: "(direction \<times> real) list"

text \<open>
  The particle field: the \<^verbatim>\<open>position\<close> attribute (three numbers per particle), the
  \<^verbatim>\<open>scale\<close> attribute, and the \<^verbatim>\<open>time\<close> uniform of its material.
\<close>

record points =
  positions :: "real list"
  scales :: "real list"
  pointsTime :: real
  pointsGeometryDisposed :: nat
  pointsMaterialDisposed :: nat

datatype scene_object = ParticlesObject | AmbientLight | PointLight | MeshObject nat

record perspective_camera =
  fov :: real
  aspect :: jsnum
  near :: real
  far :: real
  camX :: jsnum
  camY :: jsnum
  camZ :: jsnum
  lookAtTarget :: "Vector3 option"
  projection :: "real \<times> jsnum \<times> real \<times> real"

definition updateProjectionMatrix :: "perspective_camera \<Rightarrow> perspective_camera" where
  "updateProjectionMatrix c = c\<lparr>projection := (fov c, aspect c, near c, far c)\<rparr>"

definition PerspectiveCamera :: "real \<Rightarrow> jsnum \<Rightarrow> real \<Rightarrow> real \<Rightarrow> perspective_camera" where
  "PerspectiveCamera f a n r =
     updateProjectionMatrix
       \<lparr>fov = f, aspect = a, near = n, far = r, camX = Num 0, camY = Num 0, camZ = Num 0,
        lookAtTarget = None, projection = (f, a, n, r)\<rparr>"

record webgl_renderer =
  antialias :: bool
  rendererSize :: "nat \<times> nat"
  pixelRatio :: real
  rendererDisposed :: nat
  renderCalls :: nat

text \<open>
  \<^verbatim>\<open>THREE.Clock\<close> with \<^verbatim>\<open>autoStart\<close>: the first \<^verbatim>\<open>getDelta\<close> starts it and returns 0;
  \<^verbatim>\<open>getElapsedTime\<close> calls \<^verbatim>\<open>getDelta\<close> and returns the elapsed seconds.
\<close>

record three_clock =
  clockRunning :: bool
  startTime :: real
  oldTime :: real
  elapsedTime :: real

definition Clock :: three_clock where
  "Clock = \<lparr>clockRunning = False, startTime = 0, oldTime = 0, elapsedTime = 0\<rparr>"

definition getDelta :: "real \<Rightarrow> three_clock \<Rightarrow> real \<times> three_clock" where
  "getDelta now c =
     (if \<not> clockRunning c then
        (0, c\<lparr>startTime := now, oldTime := now, elapsedTime := 0, clockRunning := True\<rparr>)
      else
        let diff = (now - oldTime c) / 1000
        in (diff, c\<lparr>oldTime := now, elapsedTime := elapsedTime c + diff\<rparr>))"

definition getElapsedTime :: "real \<Rightarrow> three_clock \<Rightarrow> real \<times> three_clock" where
  "getElapsedTime now c = (let (d, c1) = getDelta now c in (elapsedTime c1, c1))"

subsection \<open>The controller and the page\<close>

datatype node = RendererCanvas | OtherNode nat

text \<open>
  A listener is a function object; \<^verbatim>\<open>bind\<close> and an arrow function each create a new
  one, told apart by the count of functions created before it.
\<close>

datatype listener = BoundOnWindowResize nat | MouseMoveArrow nat

text \<open>
  The fields of the controller, then what it touches of the page: the children of
  \<^verbatim>\<open>#canvas-container\<close>, the listeners of \<^verbatim>\<open>window\<close> and \<^verbatim>\<open>document\<close>, the pending
  animation frame requests, the background of \<^verbatim>\<open>body\<close>, the console. The page is
  taken to have the element \<^verbatim>\<open>#canvas-container\<close>, which the constructor looks up.
\<close>

record state =
  config :: scene_config
  scene :: "scene_object list option"
  camera :: "perspective_camera option"
  renderer :: "webgl_renderer option"
  particles :: "points option"
  geometries :: "mesh list"
  mouse :: "jsnum \<times> jsnum"
  targetMouse :: "jsnum \<times> jsnum"
  frameId :: "nat option"
  isActive :: bool
  clock :: three_clock
  containerChildren :: "node list"
  windowListeners :: "(string \<times> listener) list"
  documentListeners :: "(string \<times> listener) list"
  pendingFrames :: "nat list"
  framesRequested :: nat
  functionsCreated :: nat
  bodyBackground :: "string option"
  consoleErrors :: "js_error list"
  randomCalls :: nat

subsection \<open>Construction\<close>

text \<open>
  The loop of \<^verbatim>\<open>createParticles\<close>: particle \<open>i\<close> takes four outcomes of
  \<^verbatim>\<open>Math.random()\<close>, three for its position and one for its scale. A coordinate
  is \<^verbatim>\<open>(Math.random() - 0.5) * 50\<close>, two operations of binary64, stored as binary32;
  a scale is the outcome stored as binary32.
\<close>

function fillParticles ::
  "(nat \<Rightarrow> real) \<Rightarrow> nat \<Rightarrow> nat \<Rightarrow> real list \<times> real list \<times> nat \<Rightarrow> real list \<times> real list \<times> nat"
where
  "fillParticles rnd n i (ps, ss, k) =
     (if i < n then
        fillParticles rnd n (i + 1)
          (ps[i * 3 := fround (fl64 (fl64 (rnd k - 1 / 2) * 50)),
              i * 3 + 1 := fround (fl64 (fl64 (rnd (k + 1) - 1 / 2) * 50)),
              i * 3 + 2 := fround (fl64 (fl64 (rnd (k + 2) - 1 / 2) * 50))],
           ss[i := fround (rnd (k + 3))],
           k + 4)
      else (ps, ss, k))"
  by pat_completeness auto
termination
  by (relation "measure (\<lambda>(rnd, n, i, acc). n - i)") auto

declare fillParticles.simps [simp del]

definition createParticles :: "host \<Rightarrow> state \<Rightarrow> state outcome" where
  "createParticles h s =
     (case Float32Array h (particleCount (config s) * 3) of
        None \<Rightarrow> Thrown RangeError s
      | Some positions0 \<Rightarrow>
          (case Float32Array h (particleCount (config s)) of
             None \<Rightarrow> Thrown RangeError s
           | Some scales0 \<Rightarrow>
               let (ps, ss, k) =
                     fillParticles (random h) (particleCount (config s)) 0
                       (positions0, scales0, randomCalls s);
                   s1 = s\<lparr>randomCalls := k,
                          particles := Some \<lparr>positions = ps, scales = ss, pointsTime = 0,
                            pointsGeometryDisposed = 0, pointsMaterialDisposed = 0\<rparr>\<rparr>
               in case scene s1 of
                    None \<Rightarrow> Thrown TypeError s1
                  | Some ch \<Rightarrow> Returned (s1\<lparr>scene := Some (ch @ [ParticlesObject])\<rparr>)))"

text \<open>
  One floating solid takes eight outcomes of \<^verbatim>\<open>Math.random()\<close>: three for its
  position, one each for speed and phase offset, three for the rotation axis.
\<close>

definition makeMesh :: "(nat \<Rightarrow> real) \<Rightarrow> nat \<Rightarrow> geometry_kind \<Rightarrow> mesh" where
  "makeMesh rnd k g =
     (let p = Vector3 ((rnd k - 1 / 2) * 20) ((rnd (k + 1) - 1 / 2) * 20)
                ((rnd (k + 2) - 1 / 2) * 20)
      in \<lparr>meshGeometry = g, geometryDisposed = 0, materialTime = 0, materialDisposed = 0,
          position = p,
          initialY = vy p,
          speed = 5 / 10000 + rnd (k + 3) * (5 / 10000),
          offset = rnd (k + 4) * pi * 2,
          rotationAxis =
            Normalized (Vector3 (rnd (k + 5) - 1 / 2) (rnd (k + 6) - 1 / 2) (rnd (k + 7) - 1 / 2)),
          rotations = []\<rparr>)"

fun addMeshes :: "host \<Rightarrow> geometry_kind list \<Rightarrow> state \<Rightarrow> state" where
  "addMeshes h [] s = s"
| "addMeshes h (g # gs) s =
     addMeshes h gs
       (s\<lparr>geometries := geometries s @ [makeMesh (random h) (randomCalls s) g],
          scene := map_option (\<lambda>ch. ch @ [MeshObject (length (geometries s))]) (scene s),
          randomCalls := randomCalls s + 8\<rparr>)"

definition geometryKinds :: "geometry_kind list" where
  "geometryKinds =
     [TorusGeometry 1 (4 / 10) 32 64, OctahedronGeometry 1 2,
      TetrahedronGeometry 1 1, IcosahedronGeometry 1 1]"

definition createFloatingGeometries :: "host \<Rightarrow> state \<Rightarrow> state outcome" where
  "createFloatingGeometries h s =
     (case scene s of
        None \<Rightarrow> Thrown TypeError s
      | Some ch \<Rightarrow>
          Returned (addMeshes h geometryKinds (s\<lparr>scene := Some (ch @ [AmbientLight, PointLight])\<rparr>)))"

definition addListener :: "'a \<Rightarrow> 'a list \<Rightarrow> 'a list" where
  "addListener l ls = (if l \<in> set ls then ls else ls @ [l])"

definition removeListener :: "'a \<Rightarrow> 'a list \<Rightarrow> 'a list" where
  "removeListener l ls = filter (\<lambda>x. x \<noteq> l) ls"

definition addEventListeners :: "state \<Rightarrow> state" where
  "addEventListeners s =
     (let k = functionsCreated s
      in s\<lparr>windowListeners := addListener (''resize'', BoundOnWindowResize k) (windowListeners s),
           documentListeners :=
             addListener (''mousemove'', MouseMoveArrow (k + 1)) (documentListeners s),
           functionsCreated := k + 2\<rparr>)"

subsection \<open>The update tick\<close>

definition requestAnimationFrame :: "state \<Rightarrow> nat \<times> state" where
  "requestAnimationFrame s =
     (let fid = framesRequested s + 1
      in (fid, s\<lparr>framesRequested := fid, pendingFrames := pendingFrames s @ [fid]\<rparr>))"

definition cancelAnimationFrame :: "nat option \<Rightarrow> state \<Rightarrow> state" where
  "cancelAnimationFrame f s =
     (case f of
        None \<Rightarrow> s
      | Some fid \<Rightarrow> s\<lparr>pendingFrames := filter (\<lambda>x. x \<noteq> fid) (pendingFrames s)\<rparr>)"

definition animateMesh :: "real \<Rightarrow> real \<Rightarrow> mesh \<Rightarrow> mesh" where
  "animateMesh time angle m =
     m\<lparr>materialTime := time,
       rotations := rotations m @ [(rotationAxis m, angle)],
       position :=
         Vector3 (vx (position m))
           (initialY m + sin (time * speed m + offset m) * (15 / 10))
           (vz (position m))\<rparr>"

text \<open>
  \<^verbatim>\<open>c += (m * 2 - c) * k\<close>: four operations of binary64, each rounded. The factor
  \<open>k\<close> is the number that the literal of \<^verbatim>\<open>mouseEffect\<close> denotes, the double nearest
  to it.
\<close>

definition steer :: "jsnum \<Rightarrow> real \<Rightarrow> jsnum \<Rightarrow> jsnum" where
  "steer m k c =
     binary64 (jadd c
       (binary64 (jmul (binary64 (jsub (binary64 (jmul m (Num 2))) c)) (binary64 (Num k)))))"

definition animate :: "host \<Rightarrow> state \<Rightarrow> state outcome" where
  "animate h s =
     (if \<not> isActive s then Returned s
      else
        let (fid, s1) = requestAnimationFrame s;
            s2 = s1\<lparr>frameId := Some fid\<rparr>
        in if documentHidden h then Returned s2
           else
             let (delta, c1) = getDelta (nowDelta h) (clock s2);
                 (elapsed, c2) = getElapsedTime (nowElapsed h) c1;
                 time = elapsed * 1000;
                 s3 = s2\<lparr>clock := c2,
                        particles := map_option (\<lambda>p. p\<lparr>pointsTime := time\<rparr>) (particles s2),
                        geometries :=
                          map (animateMesh time (rotationSpeed (config s2))) (geometries s2)\<rparr>
             in case camera s3 of
                  None \<Rightarrow> Thrown TypeError s3
                | Some cam \<Rightarrow>
                    let cam1 = cam\<lparr>camX := steer (fst (mouse s3)) (mouseEffect (config s3)) (camX cam)\<rparr>;
                        cam2 = cam1\<lparr>camY := steer (snd (mouse s3)) (mouseEffect (config s3)) (camY cam1)\<rparr>;
                        s4 = s3\<lparr>camera := Some cam2\<rparr>
                    in case scene s4 of
                         None \<Rightarrow> Thrown TypeError s4
                       | Some ch \<Rightarrow>
                           let s5 = s4\<lparr>camera := Some (cam2\<lparr>lookAtTarget := Some (Vector3 0 0 0)\<rparr>)\<rparr>
                           in case renderer s5 of
                                None \<Rightarrow> Thrown TypeError s5
                              | Some r \<Rightarrow>
                                  Returned (s5\<lparr>renderer := Some (r\<lparr>renderCalls := renderCalls r + 1\<rparr>)\<rparr>))"

subsection \<open>Resize and pointer\<close>

definition onWindowResize :: "host \<Rightarrow> state \<Rightarrow> state outcome" where
  "onWindowResize h s =
     (case camera s of
        None \<Rightarrow> Thrown TypeError s
      | Some cam \<Rightarrow>
          let s1 = s\<lparr>camera := Some (updateProjectionMatrix
                      (cam\<lparr>aspect := jdiv_dim (real (innerWidth h)) (innerHeight h)\<rparr>))\<rparr>
          in case renderer s1 of
               None \<Rightarrow> Thrown TypeError s1
             | Some r \<Rightarrow>
                 Returned (s1\<lparr>renderer := Some (r\<lparr>rendererSize := (innerWidth h, innerHeight h)\<rparr>)\<rparr>))"

text \<open>The \<^verbatim>\<open>mousemove\<close> listener, for an event at \<open>(clientX, clientY)\<close>.\<close>

definition onMouseMove :: "real \<Rightarrow> real \<Rightarrow> host \<Rightarrow> state \<Rightarrow> state" where
  "onMouseMove clientX clientY h s =
     s\<lparr>mouse :=
         (jsub (jmul (jdiv_dim clientX (innerWidth h)) (Num 2)) (Num 1),
          jadd (jmul (jneg (jdiv_dim clientY (innerHeight h))) (Num 2)) (Num 1))\<rparr>"

subsection \<open>Disposal\<close>

definition disposeMesh :: "mesh \<Rightarrow> mesh" where
  "disposeMesh m =
     m\<lparr>geometryDisposed := geometryDisposed m + 1, materialDisposed := materialDisposed m + 1\<rparr>"

text \<open>
  The \<^verbatim>\<open>forEach\<close> of \<^verbatim>\<open>dispose\<close>, over the indices of \<^verbatim>\<open>this.geometries\<close>: the mesh
  is released, then removed from the scene.
\<close>

fun disposeMeshes :: "nat list \<Rightarrow> state \<Rightarrow> state outcome" where
  "disposeMeshes [] s = Returned s"
| "disposeMeshes (i # rest) s =
     (let s1 = s\<lparr>geometries := (geometries s)[i := disposeMesh (geometries s ! i)]\<rparr>
      in case scene s1 of
           None \<Rightarrow> Thrown TypeError s1
         | Some ch \<Rightarrow> disposeMeshes rest (s1\<lparr>scene := Some (removeAll (MeshObject i) ch)\<rparr>))"

definition disposeParticles :: "state \<Rightarrow> state outcome" where
  "disposeParticles s =
     (case particles s of
        None \<Rightarrow> Returned s
      | Some p \<Rightarrow>
          let s1 = s\<lparr>particles := Some (p\<lparr>pointsGeometryDisposed := pointsGeometryDisposed p + 1,
                                          pointsMaterialDisposed := pointsMaterialDisposed p + 1\<rparr>)\<rparr>
          in case scene s1 of
               None \<Rightarrow> Thrown TypeError s1
             | Some ch \<Rightarrow> Returned (s1\<lparr>scene := Some (removeAll ParticlesObject ch)\<rparr>))"

text \<open>\<^verbatim>\<open>removeChild\<close> throws when the node is not a child.\<close>

definition disposeRenderer :: "state \<Rightarrow> state outcome" where
  "disposeRenderer s =
     (case renderer s of
        None \<Rightarrow> Returned s
      | Some r \<Rightarrow>
          let s1 = s\<lparr>renderer := Some (r\<lparr>rendererDisposed := rendererDisposed r + 1\<rparr>)\<rparr>
          in if RendererCanvas \<in> set (containerChildren s1) then
               Returned (s1\<lparr>containerChildren := remove1 RendererCanvas (containerChildren s1)\<rparr>)
             else Thrown NotFoundError s1)"

text \<open>
  The last statement of \<^verbatim>\<open>dispose\<close> passes \<^verbatim>\<open>this.onWindowResize.bind(this)\<close>, a
  function object created there, to \<^verbatim>\<open>removeEventListener\<close>.
\<close>

definition dispose :: "state \<Rightarrow> state outcome" where
  "dispose s =
     (let s1 = cancelAnimationFrame (frameId s) (s\<lparr>isActive := False\<rparr>)
      in andThen (disposeMeshes [0..<length (geometries s1)] s1) (\<lambda>s2.
         andThen (disposeParticles s2) (\<lambda>s3.
         andThen (disposeRenderer s3) (\<lambda>s4.
           Returned
             (s4\<lparr>windowListeners :=
                    removeListener (''resize'', BoundOnWindowResize (functionsCreated s4))
                      (windowListeners s4),
                 functionsCreated := functionsCreated s4 + 1\<rparr>)))))"

subsection \<open>The constructor\<close>

text \<open>
  \<^verbatim>\<open>init\<close> is an \<^verbatim>\<open>async\<close> function whose two \<^verbatim>\<open>await\<close>s wait for calls that have
  already completed; it is modelled run to its end, which the browser reaches before
  it delivers any event. Its first statement is the WebGL probe; its second,
  \<^verbatim>\<open>new THREE.Scene()\<close>, is its first use of the rendering library.
  \<open>createSurface\<close> is its first block: the scene, the camera, and the renderer
  with its canvas appended to the container.
\<close>

definition createSurface :: "host \<Rightarrow> state \<Rightarrow> state" where
  "createSurface h s =
     (let cam = (PerspectiveCamera 60 (jdiv_dim (real (innerWidth h)) (innerHeight h)) 1 100)
                  \<lparr>camZ := Num 15\<rparr>;
          r = \<lparr>antialias = (devicePixelRatio h < 2),
               rendererSize = (innerWidth h, innerHeight h),
               pixelRatio = min (devicePixelRatio h) 2,
               rendererDisposed = 0, renderCalls = 0\<rparr>
      in s\<lparr>scene := Some [], camera := Some cam, renderer := Some r,
           containerChildren :=
             removeAll RendererCanvas (containerChildren s) @ [RendererCanvas]\<rparr>)"

definition init :: "host \<Rightarrow> state \<Rightarrow> state outcome" where
  "init h s =
     (if \<not> isWebGLAvailable h then Thrown (Error (js ''WebGL is not supported'')) s
      else if \<not> threeDefined h then Thrown ReferenceError s
      else
        andThen (createParticles h (createSurface h s)) (\<lambda>s2.
        andThen (createFloatingGeometries h s2) (\<lambda>s3.
          animate h (addEventListeners s3))))"

definition fallbackBackground :: "state \<Rightarrow> state" where
  "fallbackBackground s =
     s\<lparr>bodyBackground :=
         Some ''linear-gradient(45deg, var(--primary-color), var(--secondary-color))''\<rparr>"

text \<open>
  The constructor on a page \<open>p\<close> (of which only the page fields are read). It
  takes no argument: it sets \<^verbatim>\<open>this.config\<close> to the literal \<open>default_config\<close> and
  the other fields to their initial values (\<open>newFields\<close>), the last of them
  \<^verbatim>\<open>this.clock = new THREE.Clock()\<close>. That statement is outside the \<^verbatim>\<open>catch\<close>:
  when \<^verbatim>\<open>THREE\<close> is not defined its \<^verbatim>\<open>ReferenceError\<close> leaves the constructor,
  with the fields before it set. Then \<^verbatim>\<open>init\<close> runs, whose rejection is caught.
\<close>

definition newFields :: "scene_config \<Rightarrow> state \<Rightarrow> state" where
  "newFields cfg p =
     p\<lparr>config := cfg, scene := None, camera := None, renderer := None, particles := None,
       geometries := [], mouse := (Num 0, Num 0), targetMouse := (Num 0, Num 0),
       frameId := None, isActive := True, clock := Clock\<rparr>"

definition catch :: "state outcome \<Rightarrow> (js_error \<Rightarrow> state \<Rightarrow> state outcome) \<Rightarrow> state outcome" where
  "catch r handler = (case r of Returned s \<Rightarrow> Returned s | Thrown e s \<Rightarrow> handler e s)"

definition Background3D :: "host \<Rightarrow> state \<Rightarrow> state outcome" where
  "Background3D h p =
     (if \<not> threeDefined h then
        Thrown ReferenceError ((newFields default_config p)\<lparr>clock := clock p\<rparr>)
      else
        catch (init h (newFields default_config p))
          (\<lambda>error s. Returned (fallbackBackground (s\<lparr>consoleErrors := consoleErrors s @ [error]\<rparr>))))"

subsection \<open>Events\<close>

text \<open>
  After construction the browser calls the controller with ticks, resize
  notifications and pointer moves. A callback that throws is reported by the
  browser, and the next event finds the state as the callback left it.
\<close>

datatype event = Tick host | Resize host | MouseMove real real host

fun handle :: "event \<Rightarrow> state \<Rightarrow> state outcome" where
  "handle (Tick h) s = animate h s"
| "handle (Resize h) s = onWindowResize h s"
| "handle (MouseMove cx cy h) s = Returned (onMouseMove cx cy h s)"

fun run :: "event list \<Rightarrow> state \<Rightarrow> state" where
  "run [] s = s"
| "run (e # es) s = run es (state_of (handle e s))"

section \<open>Notions used in the statements and proofs\<close>

text \<open>What no event changes of a solid: its geometry and its \<^verbatim>\<open>userData\<close>.\<close>

definition solid_identity :: "mesh \<Rightarrow> geometry_kind \<times> real \<times> real \<times> real \<times> direction" where
  "solid_identity m = (meshGeometry m, initialY m, speed m, offset m, rotationAxis m)"


text \<open>
  A particle field of \<open>n\<close> particles sampled from the outcomes of
  \<^verbatim>\<open>Math.random()\<close> from call \<open>k\<close> on.
\<close>

definition sampled_field :: "(nat \<Rightarrow> real) \<Rightarrow> nat \<Rightarrow> nat \<Rightarrow> points \<Rightarrow> bool" where
  "sampled_field rnd k n pt =
     (length (positions pt) = 3 * n \<and> length (scales pt) = n
      \<and> (\<forall>i d. i < n \<and> d < 3 \<longrightarrow>
             positions pt ! (3 * i + d) = fround (fl64 (fl64 (rnd (k + 4 * i + d) - 1 / 2) * 50)))
      \<and> (\<forall>i < n. scales pt ! i = fround (rnd (k + 4 * i + 3))))"

text \<open>
  A camera coordinate over the ticks with the pointer held: it starts at \<open>c\<close> and
  each tick steers it towards the target \<open>t\<close> by the factor \<open>k\<close>, the sum, the
  difference and the product rounded to binary64.
\<close>

fun camera_path :: "real \<Rightarrow> real \<Rightarrow> real \<Rightarrow> nat \<Rightarrow> real" where
  "camera_path t k c 0 = c"
| "camera_path t k c (Suc n) =
     fl64 (camera_path t k c n + fl64 (fl64 (t - camera_path t k c n) * k))"

text \<open>The \<open>n\<close> first ticks of a sequence of host readings.\<close>

definition ticks :: "(nat \<Rightarrow> host) \<Rightarrow> nat \<Rightarrow> event list" where
  "ticks hs n = map (\<lambda>i. Tick (hs i)) [0..<n]"

section \<open>Example inputs\<close>

definition demo_field :: "jsstring \<Rightarrow> jsstring \<Rightarrow> field" where
  "demo_field n v =
     \<lparr>fieldName = n, fieldValue = v, defaultValue = [], classList = [], errorText = []\<rparr>"

definition demo_form :: contact_form where
  "demo_form =
     \<lparr>nameField = demo_field (js ''name'') (js ''Al''),
      emailField = demo_field (js ''email'') (js ''a@b.c''),
      messageField = demo_field (js ''message'') (js ''0123456789''),
      isSubmitting = False, submitDisabled = False,
      buttonTextDisplay = ''inline'', buttonLoaderDisplay = ''none'',
      notification = None, inFlight = None, consoleLog = []\<rparr>"

definition bad_form :: contact_form where
  "bad_form = demo_form\<lparr>emailField := demo_field (js ''email'') (js ''a@b'')\<rparr>"

text \<open>
  A browser with the rendering library loaded, WebGL and an 800 by 600 viewport,
  whose \<^verbatim>\<open>Math.random()\<close> always gives 1/4, and variants of it: one with the
  document hidden, one without WebGL, one where the library is not loaded, one that
  cannot allocate a typed array, one whose \<^verbatim>\<open>Math.random()\<close> gives the double
  \<open>1 - 1 / 2 ^ 30\<close>. A page with an empty container and no listeners; the
  controller that the constructor builds on it; and that controller after the
  pointer moved to the middle of the upper right quarter of the viewport,
  \<open>(0.5, 0.5)\<close> in the coordinates of the script.
\<close>

definition demo_host :: host where
  "demo_host =
     \<lparr>threeDefined = True, hasWebGLRenderingContext = True, getContext = (\<lambda>n. Context),
      innerWidth = 800, innerHeight = 600, devicePixelRatio = 1, documentHidden = False,
      nowDelta = 0, nowElapsed = 0, random = (\<lambda>k. 1 / 4), typedArrayLimit = 4294967295\<rparr>"

definition hidden_host :: host where
  "hidden_host = demo_host\<lparr>documentHidden := True\<rparr>"

definition no_webgl_host :: host where
  "no_webgl_host = demo_host\<lparr>hasWebGLRenderingContext := False\<rparr>"



definition near_one_host :: host where
  "near_one_host = demo_host\<lparr>random := (\<lambda>k. 1 - 1 / 2 ^ 30)\<rparr>"

definition blank_page :: state where
  "blank_page =
     \<lparr>config = default_config, scene = None, camera = None, renderer = None, particles = None,
      geometries = [], mouse = (Num 0, Num 0), targetMouse = (Num 0, Num 0), frameId = None,
      isActive = False, clock = Clock, containerChildren = [], windowListeners = [],
      documentListeners = [], pendingFrames = [], framesRequested = 0, functionsCreated = 0,
      bodyBackground = None, consoleErrors = [], randomCalls = 0\<rparr>"

definition demo_controller :: state where
  "demo_controller = state_of (init demo_host (newFields default_config blank_page))"

definition steady_hosts :: "nat \<Rightarrow> host" where
  "steady_hosts n = demo_host"

definition pointed_controller :: state where
  "pointed_controller = onMouseMove 600 150 demo_host demo_controller"

definition demo_events :: "event list" where
  "demo_events = [Tick demo_host, Resize demo_host, MouseMove 600 150 demo_host, Tick demo_host]"

section \<open>Rounding\<close>

text \<open>
  The rounded value is a nearest value of the format: no representable number is
  nearer. So rounding is monotone across a representable number and leaves a
  representable number as it is.
\<close>

lemma rne_cases: "rne y = \<lfloor>y\<rfloor> \<or> rne y = \<lfloor>y\<rfloor> + 1"
  by (simp add: rne_def Let_def)

lemma rne_nearest: "\<bar>of_int (rne y) - y\<bar> \<le> \<bar>of_int n - y\<bar>"
proof -
  define f where "f = \<lfloor>y\<rfloor>"
  define r where "r = y - of_int f"
  define k where "k = rne y"
  have r: "0 \<le> r" "r < 1" unfolding r_def f_def by linarith+
  have y: "y = of_int f + r" by (simp add: r_def)
  have "k = (if r < 1 / 2 then f else if 1 / 2 < r then f + 1 else if even f then f else f + 1)"
    by (simp add: k_def rne_def Let_def f_def r_def)
  then have k: "(k = f \<and> r \<le> 1 / 2) \<or> (k = f + 1 \<and> 1 / 2 \<le> r)"
    by (auto split: if_splits)
  consider "n \<le> f" | "f + 1 \<le> n" by linarith
  then have "\<bar>of_int k - y\<bar> \<le> \<bar>of_int n - y\<bar>"
  proof cases
    case 1
    then have "(of_int n :: real) \<le> of_int f" by simp
    with r k y show ?thesis by auto
  next
    case 2
    then have "(of_int f :: real) + 1 \<le> of_int n" by (metis of_int_1 of_int_add of_int_le_iff)
    with r k y show ?thesis by auto
  qed
  then show ?thesis by (simp add: k_def)
qed

lemma rne_of_int [simp]: "rne (of_int n) = n"
  by (simp add: rne_def)

lemma two_powi_pos [simp]: "0 < (2::real) powi e"
  by simp

lemma powr_powi: "(2::real) powr of_int e = 2 powi e"
  by (auto simp: power_int_def powr_real_of_int power_one_over inverse_eq_divide)

lemma log2_bracket:
  assumes "x \<noteq> 0"
  shows "2 powi \<lfloor>log 2 \<bar>x\<bar>\<rfloor> \<le> \<bar>x\<bar>" and "\<bar>x\<bar> < 2 powi (\<lfloor>log 2 \<bar>x\<bar>\<rfloor> + 1)"
proof -
  have "0 < \<bar>x\<bar>" using assms by simp
  from floor_log_eq_powr_iff [OF this, of 2 "\<lfloor>log 2 \<bar>x\<bar>\<rfloor>"]
  have "2 powr of_int \<lfloor>log 2 \<bar>x\<bar>\<rfloor> \<le> \<bar>x\<bar> \<and> \<bar>x\<bar> < 2 powr (of_int \<lfloor>log 2 \<bar>x\<bar>\<rfloor> + 1)"
    by simp
  then show "2 powi \<lfloor>log 2 \<bar>x\<bar>\<rfloor> \<le> \<bar>x\<bar>" and "\<bar>x\<bar> < 2 powi (\<lfloor>log 2 \<bar>x\<bar>\<rfloor> + 1)"
    using powr_powi [of "\<lfloor>log 2 \<bar>x\<bar>\<rfloor>"] powr_powi [of "\<lfloor>log 2 \<bar>x\<bar>\<rfloor> + 1"] by simp_all
qed

lemma floor_log2_eq:
  assumes "2 powi E \<le> \<bar>x\<bar>" and "\<bar>x\<bar> < 2 powi (E + 1)"
  shows "\<lfloor>log 2 \<bar>x\<bar>\<rfloor> = E"
proof -
  have "0 < \<bar>x\<bar>" using assms(1) two_powi_pos [of E] by linarith
  from floor_log_eq_powr_iff [OF this, of 2 E] assms show ?thesis
    using powr_powi [of E] powr_powi [of "E + 1"] by simp
qed

text \<open>A multiple of the unit is no nearer than the rounded value.\<close>

lemma round_unit_nearest:
  assumes "0 < u"
  shows "\<bar>of_int (rne (x / u)) * u - x\<bar> \<le> \<bar>of_int n * u - x\<bar>"
proof -
  have "\<bar>of_int (rne (x / u)) * u - x\<bar> = u * \<bar>of_int (rne (x / u)) - x / u\<bar>"
    using assms by (simp add: abs_mult_pos' [symmetric] field_simps del: abs_mult_pos')
  also have "\<dots> \<le> u * \<bar>of_int n - x / u\<bar>"
    using assms rne_nearest [of "x / u" n] by simp
  also have "\<dots> = \<bar>of_int n * u - x\<bar>"
    using assms by (simp add: abs_mult_pos' [symmetric] field_simps del: abs_mult_pos')
  finally show ?thesis .
qed

lemma two_powi_add: "(2::real) powi (a + b) = 2 powi a * 2 powi b"
  by (simp add: power_int_add)

lemma two_powi_nat: "0 \<le> k \<Longrightarrow> (2::real) powi k = of_int (2 ^ nat k)"
  by (simp add: power_int_nonneg_exp)

lemma two_powi_mono: "a \<le> b \<Longrightarrow> (2::real) powi a \<le> 2 powi b"
  by (simp add: power_int_increasing)

lemma round_to_nearest:
  assumes g: "representable p emin g" and p: "0 < p"
  shows "\<bar>round_to p emin x - x\<bar> \<le> \<bar>g - x\<bar>"
proof (cases "x = 0")
  case True
  then show ?thesis by (simp add: round_to_def)
next
  case False
  define E where "E = \<lfloor>log 2 \<bar>x\<bar>\<rfloor>"
  define e where "e = max E emin - (int p - 1)"
  define u :: real where "u = 2 powi e"
  have u: "0 < u" by (simp add: u_def)
  have rt: "round_to p emin x = of_int (rne (x / u)) * u"
    using False by (simp add: round_to_def Let_def E_def e_def u_def)
  from g obtain m f where m: "g = of_int m * 2 powi f" "\<bar>m\<bar> \<le> 2 ^ p" "emin - (int p - 1) \<le> f"
    by (auto simp: representable_def)
  show ?thesis
  proof (cases "e \<le> f")
    case True
    then have "(2::real) powi f = of_int (2 ^ nat (f - e)) * u"
      using two_powi_add [of "f - e" e] two_powi_nat [of "f - e"] by (simp add: u_def)
    then have "g = of_int (m * 2 ^ nat (f - e)) * u"
      by (simp add: m(1))
    then show ?thesis
      unfolding rt using round_unit_nearest [OF u, of x "m * 2 ^ nat (f - e)"] by simp
  next
    case False
    then have fe: "f + 1 \<le> e" by simp
    with m(3) have Ee: "e = E - (int p - 1)" and Emin: "emin < E"
      by (auto simp: e_def max_def split: if_splits)
    have xE: "2 powi E \<le> \<bar>x\<bar>"
      using log2_bracket(1) [OF \<open>x \<noteq> 0\<close>] by (simp add: E_def)
    have "\<bar>g\<bar> = of_int \<bar>m\<bar> * 2 powi f"
      by (simp add: m(1) abs_mult)
    also have "\<dots> \<le> of_int (2 ^ p) * 2 powi f"
    proof -
      have "(of_int \<bar>m\<bar> :: real) \<le> of_int (2 ^ p)"
        using m(2) by (simp only: of_int_le_iff)
      then show ?thesis by (intro mult_right_mono) simp_all
    qed
    also have "\<dots> = 2 powi (int p + f)"
      using two_powi_add [of "int p" f] by simp
    also have "\<dots> \<le> 2 powi E"
      using fe Ee by (intro two_powi_mono) simp
    finally have gE: "\<bar>g\<bar> \<le> 2 powi E" .
    define n0 :: int where "n0 = (if 0 < x then 2 ^ (p - 1) else - (2 ^ (p - 1)))"
    have "int (p - 1) = int p - 1" using p by simp
    then have "int (p - 1) + e = E" using Ee by simp
    then have "2 powi E = of_int (2 ^ (p - 1)) * u"
      using two_powi_add [of "int (p - 1)" e] by (simp add: u_def)
    then have n0: "of_int n0 * u = (if 0 < x then 2 powi E else - (2 powi E))"
      by (simp add: n0_def)
    have "\<bar>round_to p emin x - x\<bar> \<le> \<bar>of_int n0 * u - x\<bar>"
      unfolding rt by (rule round_unit_nearest [OF u])
    also have "\<dots> = \<bar>x\<bar> - 2 powi E"
      using xE \<open>x \<noteq> 0\<close> by (auto simp: n0 abs_if split: if_splits)
    also have "\<dots> \<le> \<bar>x\<bar> - \<bar>g\<bar>" using gE by simp
    also have "\<dots> \<le> \<bar>g - x\<bar>" by linarith
    finally show ?thesis .
  qed
qed

lemma round_to_le:
  assumes "representable p emin b" and "0 < p" and "x \<le> b"
  shows "round_to p emin x \<le> b"
  using round_to_nearest [OF assms(1,2), of x] assms(3) by linarith

lemma round_to_ge:
  assumes "representable p emin b" and "0 < p" and "b \<le> x"
  shows "b \<le> round_to p emin x"
  using round_to_nearest [OF assms(1,2), of x] assms(3) by linarith

lemma round_to_fixed:
  assumes "representable p emin g" and "0 < p"
  shows "round_to p emin g = g"
  using round_to_nearest [OF assms, of g] by simp

lemma representable_int:
  "\<bar>m\<bar> \<le> 2 ^ p \<Longrightarrow> emin \<le> int p - 1 \<Longrightarrow> representable p emin (of_int m)"
  unfolding representable_def by (intro exI [of _ m] exI [of _ 0]) simp

lemma representable_scaled:
  "\<bar>m\<bar> \<le> 2 ^ p \<Longrightarrow> emin - (int p - 1) \<le> e \<Longrightarrow> representable p emin (of_int m * 2 powi e)"
  unfolding representable_def by blast

text \<open>The value at a given binade, for computing.\<close>

lemma round_to_at:
  assumes "2 powi E \<le> \<bar>x\<bar>" and "\<bar>x\<bar> < 2 powi (E + 1)" and "emin \<le> E"
  shows "round_to p emin x
           = of_int (rne (x / 2 powi (E - (int p - 1)))) * 2 powi (E - (int p - 1))"
proof -
  have "0 < \<bar>x\<bar>" using assms(1) two_powi_pos [of E] by linarith
  then have "x \<noteq> 0" by auto
  with floor_log2_eq [OF assms(1,2)] assms(3) show ?thesis
    by (simp add: round_to_def Let_def max_def)
qed

lemma fround_near_one: "fround (1 - 1 / 2 ^ 30) = 1"
proof -
  have "fround (1 - 1 / 2 ^ 30)
      = of_int (rne ((1 - 1 / 2 ^ 30) / 2 powi (- 1 - (int 24 - 1)))) * 2 powi (- 1 - (int 24 - 1))"
    unfolding fround_def by (rule round_to_at) (simp_all add: power_int_minus)
  also have "(1 - 1 / 2 ^ 30) / 2 powi (- 1 - (int 24 - 1)) = (1073741823 / 64 :: real)"
    by (simp add: power_int_minus field_simps)
  also have "rne (1073741823 / 64) = 16777216"
    by (simp add: rne_def Let_def)
  finally show ?thesis by (simp add: power_int_minus)
qed

lemma fl64_fixed: "\<bar>m\<bar> \<le> 2 ^ 53 \<Longrightarrow> - 1074 \<le> e \<Longrightarrow> fl64 (of_int m * 2 powi e) = of_int m * 2 powi e"
  unfolding fl64_def by (intro round_to_fixed representable_scaled) simp_all

lemma fround_fixed: "\<bar>m\<bar> \<le> 2 ^ 24 \<Longrightarrow> - 149 \<le> e \<Longrightarrow> fround (of_int m * 2 powi e) = of_int m * 2 powi e"
  unfolding fround_def by (intro round_to_fixed representable_scaled) simp_all

lemma quarter_samples:
  "fround (fl64 (fl64 (1 / 4 - 1 / 2) * 50)) = - (25 / 2)" "fround (1 / 4) = 1 / 4"
proof -
  have "fl64 (1 / 4 - 1 / 2) = - (1 / 4)"
    using fl64_fixed [of "- 1" "- 2"] by (simp add: power_int_minus)
  moreover have "fl64 (- (1 / 4) * 50) = - (25 / 2)"
    using fl64_fixed [of "- 25" "- 1"] by (simp add: power_int_minus)
  moreover have "fround (- (25 / 2)) = - (25 / 2)"
    using fround_fixed [of "- 25" "- 1"] by (simp add: power_int_minus)
  ultimately show "fround (fl64 (fl64 (1 / 4 - 1 / 2) * 50)) = - (25 / 2)"
    by (simp only:)
  show "fround (1 / 4) = 1 / 4"
    using fround_fixed [of 1 "- 2"] by (simp add: power_int_minus)
qed

lemma coordinate_near_one: "fround (fl64 (fl64 (1 - 1 / 2 ^ 30 - 1 / 2) * 50)) = 25"
proof -
  have "fl64 (1 - 1 / 2 ^ 30 - 1 / 2) = 536870911 / 2 ^ 30"
    using fl64_fixed [of 536870911 "- 30"] by (simp add: power_int_minus)
  moreover have "fl64 (536870911 / 2 ^ 30 * 50) = 13421772775 / 2 ^ 29"
    using fl64_fixed [of 13421772775 "- 29"] by (simp add: power_int_minus)
  moreover have "fround (13421772775 / 2 ^ 29) = 25"
  proof -
    have "fround (13421772775 / 2 ^ 29)
        = of_int (rne (13421772775 / 2 ^ 29 / 2 powi (4 - (int 24 - 1)))) * 2 powi (4 - (int 24 - 1))"
      unfolding fround_def by (rule round_to_at) (simp_all add: power_int_minus)
    also have "13421772775 / 2 ^ 29 / 2 powi (4 - (int 24 - 1)) = (13421772775 / 1024 :: real)"
      by (simp add: power_int_minus field_simps)
    also have "rne (13421772775 / 1024) = 13107200"
      by (simp add: rne_def Let_def)
    finally show ?thesis by (simp add: power_int_minus)
  qed
  ultimately show ?thesis by (simp only:)
qed

section \<open>The steering step in binary64\<close>

text \<open>
  Rounding is odd and its values are values of the format. A difference of doubles
  that is not itself a double is at least \<open>2 powi (- 1021)\<close>, and a double there
  has a significand of 53 bits; this gives the bound on the rounded increment.
\<close>

lemma rne_minus: "rne (- y) = - rne y"
proof (cases "y = of_int \<lfloor>y\<rfloor>")
  case True
  then obtain n where "y = of_int n" ..
  then have "- y = of_int (- n)" by simp
  then show ?thesis using \<open>y = of_int n\<close> by (simp only: rne_of_int)
next
  case False
  define f where "f = \<lfloor>y\<rfloor>"
  define r where "r = y - of_int f"
  have r: "0 < r" "r < 1"
    using False unfolding r_def f_def by linarith+
  have fm: "\<lfloor>- y\<rfloor> = - f - 1"
    by (rule floor_unique) (use r in \<open>simp_all add: r_def\<close>)
  have rm: "- y - of_int (- f - 1) = 1 - r"
    by (simp add: r_def)
  have e: "even (- f - 1) \<longleftrightarrow> odd f" by simp
  have "rne (- y) = (if 1 - r < 1 / 2 then - f - 1 else if 1 / 2 < 1 - r then - f
                     else if odd f then - f - 1 else - f)"
    unfolding rne_def Let_def fm rm e by simp
  moreover have "rne y = (if r < 1 / 2 then f else if 1 / 2 < r then f + 1
                          else if even f then f else f + 1)"
    unfolding rne_def Let_def f_def [symmetric] r_def [symmetric] ..
  ultimately show ?thesis using r by auto
qed

lemma round_to_minus: "round_to p emin (- x) = - round_to p emin x"
  by (simp add: round_to_def Let_def rne_minus)

lemma rne_bound:
  assumes "\<bar>y\<bar> < of_int N"
  shows "\<bar>rne y\<bar> \<le> N"
proof -
  from assms have "y < of_int N" "of_int (- N) \<le> y" by simp_all
  then have "\<lfloor>y\<rfloor> < N" "- N \<le> \<lfloor>y\<rfloor>"
    by (simp_all only: floor_less_iff le_floor_iff)
  with rne_cases [of y] show ?thesis by auto
qed

lemma round_to_representable:
  assumes p: "0 < p"
  shows "representable p emin (round_to p emin x)"
proof (cases "x = 0")
  case True
  have "representable p emin (of_int 0 * 2 powi (emin - (int p - 1)))"
    by (intro representable_scaled) simp_all
  with True show ?thesis by (simp add: round_to_def)
next
  case False
  define E where "E = \<lfloor>log 2 \<bar>x\<bar>\<rfloor>"
  define e where "e = max E emin - (int p - 1)"
  define u :: real where "u = 2 powi e"
  have u: "0 < u" by (simp add: u_def)
  have rt: "round_to p emin x = of_int (rne (x / u)) * u"
    using False by (simp add: round_to_def Let_def E_def e_def u_def)
  have "\<bar>x\<bar> < 2 powi (E + 1)"
    using log2_bracket(2) [OF False] by (simp add: E_def)
  also have "\<dots> \<le> 2 powi (int p + e)"
    by (intro two_powi_mono) (simp add: e_def)
  also have "\<dots> = of_int (2 ^ p) * u"
    using two_powi_add [of "int p" e] by (simp add: u_def)
  finally have "\<bar>x / u\<bar> < of_int (2 ^ p)"
    using u by (simp add: field_simps)
  then have "\<bar>rne (x / u)\<bar> \<le> 2 ^ p" by (rule rne_bound)
  moreover have "emin - (int p - 1) \<le> e" by (simp add: e_def)
  ultimately show ?thesis
    unfolding rt u_def by (rule representable_scaled)
qed

text \<open>Rounding is monotone.\<close>

lemma round_to_mono:
  assumes p: "0 < p" and xy: "x \<le> y"
  shows "round_to p emin x \<le> round_to p emin y"
proof (rule ccontr)
  assume "\<not> round_to p emin x \<le> round_to p emin y"
  then have lt: "round_to p emin y < round_to p emin x" by simp
  from round_to_nearest [OF round_to_representable [OF p, of emin y] p, of x]
  have 1: "\<bar>round_to p emin x - x\<bar> \<le> \<bar>round_to p emin y - x\<bar>" .
  from round_to_nearest [OF round_to_representable [OF p, of emin x] p, of y]
  have 2: "\<bar>round_to p emin y - y\<bar> \<le> \<bar>round_to p emin x - y\<bar>" .
  from 1 2 lt xy have "x = y" by linarith
  with lt show False by simp
qed

lemma representable_minus: "representable p emin g \<Longrightarrow> representable p emin (- g)"
proof -
  assume "representable p emin g"
  then obtain m e where "g = of_int m * 2 powi e" "\<bar>m\<bar> \<le> 2 ^ p" "emin - (int p - 1) \<le> e"
    by (auto simp: representable_def)
  then have "- g = of_int (- m) * 2 powi e" "\<bar>- m\<bar> \<le> 2 ^ p" by simp_all
  with \<open>emin - (int p - 1) \<le> e\<close> show ?thesis
    unfolding representable_def by blast
qed

text \<open>Every value of the format is a multiple of its smallest positive value.\<close>

lemma representable_grid:
  assumes "representable p emin g"
  shows "\<exists>N. g = of_int N * 2 powi (emin - (int p - 1))"
proof -
  from assms obtain m e where m: "g = of_int m * 2 powi e" "emin - (int p - 1) \<le> e"
    by (auto simp: representable_def)
  let ?e0 = "emin - (int p - 1)"
  have "(2::real) powi e = of_int (2 ^ nat (e - ?e0)) * 2 powi ?e0"
    using two_powi_add [of "e - ?e0" ?e0] two_powi_nat [of "e - ?e0"] m(2) by simp
  then have "g = of_int (m * 2 ^ nat (e - ?e0)) * 2 powi ?e0"
    by (simp add: m(1))
  then show ?thesis ..
qed

text \<open>The largest double below 1.\<close>

lemma representable_below_one:
  assumes k: "representable 53 (- 1022) k" and "k < 1"
  shows "k \<le> 1 - 1 / 2 ^ 53"
proof (rule ccontr)
  assume "\<not> k \<le> 1 - 1 / 2 ^ 53"
  then have lo: "1 - 1 / 2 ^ 53 < k" by simp
  from k obtain m e where m: "k = of_int m * 2 powi e" "\<bar>m\<bar> \<le> 2 ^ 53"
    by (auto simp: representable_def)
  show False
  proof (cases "- 53 \<le> e")
    case True
    have "(2::real) powi e * 2 ^ 53 = 2 powi (e + 53)"
      using two_powi_add [of e 53] by simp
    also have "\<dots> = of_int (2 ^ nat (e + 53))"
      using True by (intro two_powi_nat) simp
    finally have "k * 2 ^ 53 = of_int (m * 2 ^ nat (e + 53))"
      by (simp add: m(1) mult.assoc)
    moreover have "(2 ^ 53 - 1 :: real) < k * 2 ^ 53" "k * 2 ^ 53 < 2 ^ 53"
      using lo \<open>k < 1\<close> by (simp_all add: field_simps)
    ultimately have "(of_int (2 ^ 53 - 1) :: real) < of_int (m * 2 ^ nat (e + 53))"
      "(of_int (m * 2 ^ nat (e + 53)) :: real) < of_int (2 ^ 53)"
      by simp_all
    then have "2 ^ 53 - 1 < m * 2 ^ nat (e + 53)" "m * 2 ^ nat (e + 53) < 2 ^ 53"
      by (simp_all only: of_int_less_iff)
    then show False by linarith
  next
    case False
    then have "e \<le> - 54" by simp
    have "\<bar>k\<bar> = of_int \<bar>m\<bar> * 2 powi e" by (simp add: m(1) abs_mult)
    also have "\<dots> \<le> of_int (2 ^ 53) * 2 powi e"
    proof -
      have "(of_int \<bar>m\<bar> :: real) \<le> of_int (2 ^ 53)"
        using m(2) by (simp only: of_int_le_iff)
      then show ?thesis by (intro mult_right_mono) simp_all
    qed
    also have "\<dots> \<le> of_int (2 ^ 53) * 2 powi (- 54)"
      using \<open>e \<le> - 54\<close> by (intro mult_left_mono two_powi_mono) simp_all
    also have "\<dots> = 1 / 2" by (simp add: power_int_minus)
    finally show False using lo by simp
  qed
qed

text \<open>A double at or above the second binade of the normal numbers, with its significand.\<close>

lemma normal_form:
  assumes d: "representable 53 (- 1022) d" and lo: "2 powi (- 1021) \<le> d"
  shows "\<exists>M E. d = of_int M * 2 powi (E - 52) \<and> 2 ^ 52 \<le> M \<and> M < 2 ^ 53 \<and> - 1021 \<le> E"
proof -
  have pos: "0 < d" using lo two_powi_pos [of "- 1021"] by linarith
  then have nz: "d \<noteq> 0" and ad: "\<bar>d\<bar> = d" by simp_all
  define E where "E = \<lfloor>log 2 \<bar>d\<bar>\<rfloor>"
  have b: "2 powi E \<le> \<bar>d\<bar>" "\<bar>d\<bar> < 2 powi (E + 1)"
    using log2_bracket [OF nz] by (simp_all add: E_def)
  have E: "- 1021 \<le> E"
  proof (rule ccontr)
    assume "\<not> - 1021 \<le> E"
    then have "(2::real) powi (E + 1) \<le> 2 powi (- 1021)"
      by (intro two_powi_mono) simp
    with b(2) lo ad show False by linarith
  qed
  define u :: real where "u = 2 powi (E - 52)"
  have u: "0 < u" by (simp add: u_def)
  define M where "M = rne (d / u)"
  have "fl64 d = of_int (rne (d / 2 powi (E - (int 53 - 1)))) * 2 powi (E - (int 53 - 1))"
    unfolding fl64_def using E by (intro round_to_at b) simp
  moreover have "fl64 d = d"
    unfolding fl64_def by (rule round_to_fixed [OF d]) simp
  ultimately have dM: "d = of_int M * u"
    by (simp add: M_def u_def)
  have "(2::real) powi E = 2 ^ 52 * u"
    using two_powi_add [of 52 "E - 52"] by (simp add: u_def)
  moreover have "(2::real) powi (E + 1) = 2 ^ 53 * u"
  proof -
    have "E + 1 = 53 + (E - 52)" by simp
    then have "(2::real) powi (E + 1) = 2 powi 53 * 2 powi (E - 52)"
      by (simp only: two_powi_add)
    then show ?thesis by (simp add: u_def)
  qed
  ultimately have "(2::real) powi E = 2 ^ 52 * u" "(2::real) powi (E + 1) = 2 ^ 53 * u" .
  with b ad dM have "2 ^ 52 * u \<le> of_int M * u" "of_int M * u < 2 ^ 53 * u"
    by simp_all
  with u have "(of_int (2 ^ 52) :: real) \<le> of_int M" "(of_int M :: real) < of_int (2 ^ 53)"
    by simp_all
  then have "2 ^ 52 \<le> M" "M < 2 ^ 53"
    by (simp_all only: of_int_le_iff of_int_less_iff)
  with dM E show ?thesis unfolding u_def by blast
qed

text \<open>
  One step of the steering towards a target at or above the coordinate: the rounded
  increment does not exceed the distance, so the new coordinate is between the old
  one and the target.
\<close>

lemma increment_le_distance:
  assumes t: "representable 53 (- 1022) t" and c: "representable 53 (- 1022) c"
    and k: "representable 53 (- 1022) k" and k0: "0 \<le> k" and k1: "k < 1" and ct: "c \<le> t"
  shows "0 \<le> fl64 (fl64 (t - c) * k)" and "fl64 (fl64 (t - c) * k) \<le> t - c"
proof -
  define D where "D = t - c"
  define d where "d = fl64 D"
  define q where "q = fl64 (d * k)"
  have p: "0 < (53::nat)" by simp
  have R0: "representable 53 (- 1022) 0"
    using representable_int [of 0 53 "- 1022"] by simp
  have D0: "0 \<le> D" using ct by (simp add: D_def)
  have d0: "0 \<le> d"
    unfolding d_def fl64_def by (rule round_to_ge [OF R0 p D0])
  have Rd: "representable 53 (- 1022) d"
    unfolding d_def fl64_def by (rule round_to_representable [OF p])
  have Rq: "representable 53 (- 1022) q"
    unfolding q_def fl64_def by (rule round_to_representable [OF p])
  have "0 \<le> d * k" using d0 k0 by simp
  then have "0 \<le> q"
    unfolding q_def fl64_def by (rule round_to_ge [OF R0 p])
  then show "0 \<le> fl64 (fl64 (t - c) * k)"
    by (simp add: q_def d_def D_def)
  have "d * k \<le> d * 1" using d0 k1 by (intro mult_left_mono) simp_all
  then have qd: "q \<le> d"
    unfolding q_def fl64_def by (intro round_to_le [OF Rd p]) simp
  have "q \<le> D"
  proof (rule ccontr)
    assume "\<not> q \<le> D"
    then have Dq: "D < q" by simp
    from round_to_nearest [OF Rq p, of D] have "\<bar>d - D\<bar> \<le> \<bar>q - D\<bar>"
      by (simp add: d_def fl64_def)
    with Dq qd have qd': "q = d" by linarith
    then have Dd: "D < d" using Dq by simp
    have nD: "\<not> representable 53 (- 1022) D"
    proof
      assume "representable 53 (- 1022) D"
      from round_to_fixed [OF this p] Dd show False by (simp add: d_def fl64_def)
    qed
    have big: "2 powi (- 1021) < D"
    proof (rule ccontr)
      assume "\<not> 2 powi (- 1021) < D"
      then have le: "D \<le> 2 powi (- 1021)" by simp
      from representable_grid [OF t] representable_grid [OF c]
      obtain Nt Nc where N: "t = of_int Nt * 2 powi (- 1074)" "c = of_int Nc * 2 powi (- 1074)"
        by auto
      then have DN: "D = of_int (Nt - Nc) * 2 powi (- 1074)"
        by (simp add: D_def algebra_simps)
      have "(2::real) powi (- 1021) = of_int (2 ^ 53) * 2 powi (- 1074)"
        using two_powi_add [of 53 "- 1074"] by simp
      with le D0 DN have "of_int (Nt - Nc) * (2::real) powi (- 1074) \<le> of_int (2 ^ 53) * 2 powi (- 1074)"
        "0 \<le> of_int (Nt - Nc) * (2::real) powi (- 1074)"
        by simp_all
      then have "(of_int (Nt - Nc) :: real) \<le> of_int (2 ^ 53)" "(0::real) \<le> of_int (Nt - Nc)"
        by (simp_all add: zero_le_mult_iff)
      then have "Nt - Nc \<le> 2 ^ 53" "0 \<le> Nt - Nc"
        by (simp_all only: of_int_le_iff of_int_0_le_iff)
      then have "representable 53 (- 1022) (of_int (Nt - Nc) * 2 powi (- 1074))"
        by (intro representable_scaled) simp_all
      with nD DN show False by simp
    qed
    have "2 powi (- 1021) \<le> d" using big Dd by simp
    from normal_form [OF Rd this] obtain M E where
      M: "d = of_int M * 2 powi (E - 52)" "2 ^ 52 \<le> M" "M < 2 ^ 53" "- 1021 \<le> E"
      by blast
    define u :: real where "u = 2 powi (E - 52)"
    have u: "0 < u" by (simp add: u_def)
    have dM: "d = of_int M * u" by (simp add: M(1) u_def)
    have Mr: "(2 ^ 52 :: real) \<le> of_int M"
    proof -
      have "(of_int (2 ^ 52) :: real) \<le> of_int M" using M(2) by (simp only: of_int_le_iff)
      then show ?thesis by simp
    qed
    define x where "x = d * k"
    have fx: "fl64 x = d" using qd' by (simp add: q_def x_def)
    have kk: "k \<le> 1 - 1 / 2 ^ 53" by (rule representable_below_one [OF k k1])
    have "x \<le> d * (1 - 1 / 2 ^ 53)"
      unfolding x_def using d0 kk by (intro mult_left_mono) simp_all
    then have x1: "x \<le> d - d / 2 ^ 53" by (simp add: algebra_simps)
    have "u / 2 = 2 ^ 52 * u / 2 ^ 53" by simp
    also have "\<dots> \<le> of_int M * u / 2 ^ 53"
      using Mr u by (intro divide_right_mono mult_right_mono) simp_all
    finally have half: "u / 2 \<le> d / 2 ^ 53" by (simp add: dM)
    have Rg: "representable 53 (- 1022) (of_int (M - 1) * 2 powi (E - 52))"
      using M(2,3,4) by (intro representable_scaled) simp_all
    have g: "of_int (M - 1) * 2 powi (E - 52) = d - u"
      by (simp add: dM u_def algebra_simps)
    from round_to_nearest [OF Rg p, of x] have "\<bar>d - x\<bar> \<le> \<bar>d - u - x\<bar>"
      unfolding g using fx by (simp only: fl64_def)
    with x1 half u have xe: "x = d - u / 2" and de: "d / 2 ^ 53 = u / 2"
      by linarith+
    from de have "of_int M * u = 2 ^ 52 * u" by (simp add: dM)
    with u have M52: "(of_int M :: real) = 2 ^ 52" by simp
    have "u = 2 * 2 powi (E - 53)"
      using two_powi_add [of 1 "E - 53"] by (simp add: u_def)
    then have "x = of_int (2 ^ 53 - 1) * 2 powi (E - 53)"
      by (simp add: xe dM M52 algebra_simps)
    moreover have "representable 53 (- 1022) (of_int (2 ^ 53 - 1) * 2 powi (E - 53))"
      using M(4) by (intro representable_scaled) simp_all
    ultimately have "representable 53 (- 1022) x" by simp
    from round_to_fixed [OF this p] fx have "d = x" by (simp add: fl64_def)
    with xe u show False by simp
  qed
  then show "fl64 (fl64 (t - c) * k) \<le> t - c"
    by (simp add: q_def d_def D_def)
qed

lemma fl64_minus: "fl64 (- x) = - fl64 x"
  by (simp only: fl64_def round_to_minus)

lemma fl64_representable: "representable 53 (- 1022) (fl64 x)"
  unfolding fl64_def by (rule round_to_representable) simp

lemma fl64_abs_le:
  assumes "- 1074 \<le> e" and "\<bar>x\<bar> \<le> 2 powi e"
  shows "\<bar>fl64 x\<bar> \<le> 2 powi e"
proof -
  have "representable 53 (- 1022) (of_int 1 * 2 powi e)"
    using assms(1) by (intro representable_scaled) simp_all
  then have r: "representable 53 (- 1022) (2 powi e)" by simp
  from assms(2) have "x \<le> 2 powi e" "- (2 powi e) \<le> x" by linarith+
  then have "fl64 x \<le> 2 powi e" "- (2 powi e) \<le> fl64 x"
    unfolding fl64_def
    by (simp_all add: round_to_le [OF r] round_to_ge [OF representable_minus [OF r]])
  then show ?thesis by linarith
qed

lemma binary64_Num:
  assumes "\<bar>x\<bar> \<le> 2 powi 1003"
  shows "binary64 (Num x) = Num (fl64 x)"
proof -
  from fl64_abs_le [OF _ assms] have "\<bar>fl64 x\<bar> \<le> 2 powi 1003" by simp
  also have "(2::real) powi 1003 < 2 powi 1024"
    by (intro power_int_strict_increasing) simp_all
  finally have "\<not> 2 ^ 1024 \<le> \<bar>fl64 x\<bar>" by simp
  then show ?thesis by (simp add: binary64_def)
qed

text \<open>One step of the steering stays between the coordinate and the target.\<close>

lemma steer_between:
  assumes t: "representable 53 (- 1022) t" and c: "representable 53 (- 1022) c"
    and k: "representable 53 (- 1022) k" and k0: "0 \<le> k" and k1: "k < 1"
  shows "c \<le> t \<Longrightarrow> c \<le> fl64 (c + fl64 (fl64 (t - c) * k))
                    \<and> fl64 (c + fl64 (fl64 (t - c) * k)) \<le> t"
    and "t \<le> c \<Longrightarrow> t \<le> fl64 (c + fl64 (fl64 (t - c) * k))
                    \<and> fl64 (c + fl64 (fl64 (t - c) * k)) \<le> c"
proof -
  have p: "0 < (53::nat)" by simp
  have up: "c' \<le> fl64 (c' + fl64 (fl64 (t' - c') * k))
          \<and> fl64 (c' + fl64 (fl64 (t' - c') * k)) \<le> t'"
    if t': "representable 53 (- 1022) t'" and c': "representable 53 (- 1022) c'" and "c' \<le> t'"
    for t' c'
  proof -
    from increment_le_distance [OF t' c' k k0 k1 that(3)]
    have "c' \<le> c' + fl64 (fl64 (t' - c') * k)" "c' + fl64 (fl64 (t' - c') * k) \<le> t'"
      by simp_all
    then show ?thesis
      unfolding fl64_def using round_to_ge [OF c' p] round_to_le [OF t' p] by blast
  qed
  show "c \<le> fl64 (c + fl64 (fl64 (t - c) * k)) \<and> fl64 (c + fl64 (fl64 (t - c) * k)) \<le> t"
    if "c \<le> t"
    using up [OF t c that] .
  show "t \<le> fl64 (c + fl64 (fl64 (t - c) * k)) \<and> fl64 (c + fl64 (fl64 (t - c) * k)) \<le> c"
    if "t \<le> c"
  proof -
    from that have "- c \<le> - t" by simp
    from up [OF representable_minus [OF t] representable_minus [OF c] this]
    have u: "- c \<le> fl64 (- c + fl64 (fl64 (- t - - c) * k))"
      "fl64 (- c + fl64 (fl64 (- t - - c) * k)) \<le> - t"
      by simp_all
    have "- t - - c = - (t - c)" by simp
    then have "fl64 (- c + fl64 (fl64 (- t - - c) * k))
        = fl64 (- c + fl64 (fl64 (- (t - c)) * k))"
      by (simp only:)
    also have "\<dots> = fl64 (- c + fl64 (- (fl64 (t - c) * k)))"
      by (simp only: fl64_minus mult_minus_left)
    also have "\<dots> = fl64 (- (c + fl64 (fl64 (t - c) * k)))"
      by (simp only: fl64_minus minus_add_distrib)
    also have "\<dots> = - fl64 (c + fl64 (fl64 (t - c) * k))"
      by (simp only: fl64_minus)
    finally show ?thesis using u by simp
  qed
qed

lemma fl64_idem: "fl64 (fl64 x) = fl64 x"
  unfolding fl64_def by (rule round_to_fixed [OF round_to_representable]) simp_all

text \<open>The double that the literal \<^verbatim>\<open>0.02\<close> denotes.\<close>

lemma mouseEffect_double: "fl64 (2 / 100) = 5764607523034235 / 2 ^ 58"
proof -
  have "fl64 (2 / 100)
      = of_int (rne (2 / 100 / 2 powi (- 6 - (int 53 - 1)))) * 2 powi (- 6 - (int 53 - 1))"
    unfolding fl64_def by (rule round_to_at) (simp_all add: power_int_minus)
  also have "2 / 100 / 2 powi (- 6 - (int 53 - 1)) = (144115188075855872 / 25 :: real)"
    by (simp add: power_int_minus field_simps)
  also have "rne (144115188075855872 / 25) = 5764607523034235"
    by (simp add: rne_def Let_def)
  finally show ?thesis by (simp add: power_int_minus)
qed

text \<open>
  A coordinate where the steering stalls: at \<open>1 - 24 / 2 ^ 53\<close> with the target 1 the
  rounded increment is less than half the spacing of the doubles there.
\<close>

lemma stall_step:
  "fl64 (1 - 24 / 2 ^ 53 + fl64 (fl64 (1 - (1 - 24 / 2 ^ 53)) * fl64 (2 / 100)))
     = 1 - 24 / 2 ^ 53"
proof -
  have b: "fl64 (1 - (1 - 24 / 2 ^ 53)) = 3 / 2 ^ 50"
    using fl64_fixed [of 3 "- 50"] by (simp add: power_int_minus)
  have c: "fl64 (3 / 2 ^ 50 * (5764607523034235 / 2 ^ 58)) = 8646911284551352 / 2 ^ 107"
  proof -
    let ?x = "3 / 2 ^ 50 * (5764607523034235 / 2 ^ 58) :: real"
    have "fl64 ?x
        = of_int (rne (?x / 2 powi (- 55 - (int 53 - 1)))) * 2 powi (- 55 - (int 53 - 1))"
      unfolding fl64_def by (rule round_to_at) (simp_all add: power_int_minus)
    also have "?x / 2 powi (- 55 - (int 53 - 1)) = (17293822569102705 / 2 :: real)"
      by (simp add: power_int_minus field_simps)
    also have "rne (17293822569102705 / 2) = 8646911284551352"
      by (simp add: rne_def Let_def)
    finally show ?thesis by (simp add: power_int_minus)
  qed
  have d: "fl64 (1 - 24 / 2 ^ 53 + 8646911284551352 / 2 ^ 107) = 1 - 24 / 2 ^ 53"
  proof -
    let ?x = "1 - 24 / 2 ^ 53 + 8646911284551352 / 2 ^ 107 :: real"
    have "fl64 ?x
        = of_int (rne (?x / 2 powi (- 1 - (int 53 - 1)))) * 2 powi (- 1 - (int 53 - 1))"
      unfolding fl64_def by (rule round_to_at) (simp_all add: power_int_minus)
    also have "?x / 2 powi (- 1 - (int 53 - 1))
        = (20282409603651617461615633408983 / 2251799813685248 :: real)"
      by (simp add: power_int_minus field_simps)
    also have "rne (20282409603651617461615633408983 / 2251799813685248) = 9007199254740968"
      by (simp add: rne_def Let_def)
    finally show ?thesis by (simp add: power_int_minus)
  qed
  show ?thesis
    by (simp only: b c d mouseEffect_double)
qed

text \<open>The doubles of the binade below 1 are the multiples of \<open>1 / 2 ^ 53\<close>.\<close>

lemma double_below_one:
  assumes c: "representable 53 (- 1022) c" and lo: "1 / 2 \<le> c" and hi: "c < 1"
  shows "\<exists>N. c = of_int N / 2 ^ 53"
proof -
  have "fl64 c = of_int (rne (c / 2 powi (- 1 - (int 53 - 1)))) * 2 powi (- 1 - (int 53 - 1))"
    unfolding fl64_def using lo hi by (intro round_to_at) (simp_all add: power_int_minus)
  moreover have "fl64 c = c"
    unfolding fl64_def by (rule round_to_fixed [OF c]) simp
  ultimately have "c = of_int (rne (c / 2 powi (- 1 - (int 53 - 1)))) / 2 ^ 53"
    by (simp add: power_int_minus)
  then show ?thesis ..
qed

section \<open>The matcher decides the language of its pattern\<close>

lemma nullable_lang: "nullable r \<longleftrightarrow> [] \<in> lang r"
  by (induction r) (auto intro: star.star_nil)

lemma star_cons_split:
  assumes "w \<in> star L" and "w = c # x"
  shows "\<exists>u v. x = u @ v \<and> c # u \<in> L \<and> v \<in> star L"
  using assms
proof (induction arbitrary: x rule: star.induct)
  case star_nil
  then show ?case by simp
next
  case (star_app u v)
  show ?case
  proof (cases u)
    case Nil
    with star_app show ?thesis by simp
  next
    case (Cons a u')
    with star_app.prems have "a = c" and "x = u' @ v" by simp_all
    with Cons star_app.hyps show ?thesis by blast
  qed
qed

lemma star_cons_iff:
  "c # x \<in> star L \<longleftrightarrow> (\<exists>u v. x = u @ v \<and> c # u \<in> L \<and> v \<in> star L)"
proof
  assume "c # x \<in> star L"
  then show "\<exists>u v. x = u @ v \<and> c # u \<in> L \<and> v \<in> star L"
    using star_cons_split by blast
next
  assume "\<exists>u v. x = u @ v \<and> c # u \<in> L \<and> v \<in> star L"
  then obtain u v where "x = u @ v" "c # u \<in> L" "v \<in> star L" by blast
  then show "c # x \<in> star L"
    using star.star_app [of "c # u" L v] by simp
qed

lemma lang_deriv: "w \<in> lang (deriv c r) \<longleftrightarrow> c # w \<in> lang r"
proof (induction r arbitrary: w)
  case (Seq r s)
  show ?case
  proof (cases "nullable r")
    case True
    then have n: "[] \<in> lang r" by (simp add: nullable_lang)
    show ?thesis
    proof
      assume "w \<in> lang (deriv c (Seq r s))"
      with True Seq show "c # w \<in> lang (Seq r s)"
        apply auto
         apply (metis append_Cons)
        using n by (metis append_Nil)
    next
      assume "c # w \<in> lang (Seq r s)"
      then obtain u v where uv: "c # w = u @ v" "u \<in> lang r" "v \<in> lang s" by auto
      show "w \<in> lang (deriv c (Seq r s))"
      proof (cases u)
        case Nil
        with uv True Seq show ?thesis by auto
      next
        case (Cons a u')
        with uv True Seq show ?thesis by auto
      qed
    qed
  next
    case False
    then have n: "[] \<notin> lang r" by (simp add: nullable_lang)
    show ?thesis
    proof
      assume "w \<in> lang (deriv c (Seq r s))"
      with False Seq show "c # w \<in> lang (Seq r s)"
        by auto (metis append_Cons)
    next
      assume "c # w \<in> lang (Seq r s)"
      then obtain u v where uv: "c # w = u @ v" "u \<in> lang r" "v \<in> lang s" by auto
      with n obtain u' where "u = c # u'" "w = u' @ v" by (cases u) auto
      with uv False Seq show "w \<in> lang (deriv c (Seq r s))" by auto
    qed
  qed
next
  case (Star r)
  then show ?case by (auto simp: star_cons_iff)
qed auto

lemma regex_test_lang: "regex_test r w \<longleftrightarrow> w \<in> lang r"
  by (induction w arbitrary: r) (simp_all add: nullable_lang lang_deriv)

lemma star_sym: "w \<in> star {[c] | c. p c} \<longleftrightarrow> list_all p w"
proof
  assume "w \<in> star {[c] | c. p c}"
  then show "list_all p w" by (induction rule: star.induct) auto
next
  assume "list_all p w"
  then show "w \<in> star {[c] | c. p c}"
  proof (induction w)
    case Nil
    show ?case by (rule star.star_nil)
  next
    case (Cons a w)
    then have "[a] \<in> {[c] | c. p c}" and "w \<in> star {[c] | c. p c}" by auto
    then have "[a] @ w \<in> star {[c] | c. p c}" by (rule star.star_app)
    then show ?case by simp
  qed
qed

lemma lang_plus_sym: "w \<in> lang (plus (Sym p)) \<longleftrightarrow> w \<noteq> [] \<and> list_all p w"
proof -
  have "w \<in> lang (plus (Sym p)) \<longleftrightarrow> (\<exists>c v. w = c # v \<and> p c \<and> list_all p v)"
    apply (auto simp: plus_def star_sym)
    by (metis append_Cons append_Nil)
  also have "\<dots> \<longleftrightarrow> w \<noteq> [] \<and> list_all p w"
    by (cases w) auto
  finally show ?thesis .
qed

lemma lang_lit: "w \<in> lang (lit ch) \<longleftrightarrow> w = js [ch]"
  by (auto simp: lit_def js_def)

lemma emailRegex_shape: "regex_test emailRegex v \<longleftrightarrow> email_shape v"
proof -
  have "v \<in> lang emailRegex \<longleftrightarrow> email_shape v"
    unfolding emailRegex_def email_shape_def
    apply (simp only: lang.simps(5) mem_Collect_eq lang_plus_sym lang_lit)
    by blast
  then show ?thesis by (simp add: regex_test_lang)
qed


lemma js_nonempty: "js (c # cs) \<noteq> []"
  by (simp add: js_def)

lemma field_names_distinct:
  "js ''name'' \<noteq> js ''email''" "js ''name'' \<noteq> js ''message''" "js ''email'' \<noteq> js ''message''"
  by (simp_all add: js_def)

lemma validateField_verdict:
  "fst (validateField f) = fst (checkField (fieldName f) (trim (fieldValue f)))"
  by (cases "checkField (fieldName f) (trim (fieldValue f))") (simp add: validateField_def)

lemma validateField_message:
  "\<not> fst (validateField f) \<Longrightarrow>
     errorText (snd (validateField f)) = snd (checkField (fieldName f) (trim (fieldValue f)))"
  by (cases "checkField (fieldName f) (trim (fieldValue f))")
    (simp add: validateField_def setFieldStatus_def Let_def)

section \<open>Field validation\<close>

text \<open>
  C5. The verdict of \<^verbatim>\<open>validateField\<close> is a function of the field's name and trimmed
  value: a \<open>name\<close> field is valid exactly when the trimmed value has at least 2 code
  units, a \<open>message\<close> field exactly when it has at least 10, an \<open>email\<close> field exactly
  when it has the shape \<open>local@domain.tld\<close>; an invalid field gets a non-empty error
  message, the one of its kind.
\<close>

theorem validateField_spec:
  "(fieldName f = js ''name'' \<longrightarrow>
      (fst (validateField f) \<longleftrightarrow> 2 \<le> length (trim (fieldValue f)))) \<and>
   (fieldName f = js ''message'' \<longrightarrow>
      (fst (validateField f) \<longleftrightarrow> 10 \<le> length (trim (fieldValue f)))) \<and>
   (fieldName f = js ''email'' \<longrightarrow>
      (fst (validateField f) \<longleftrightarrow> email_shape (trim (fieldValue f)))) \<and>
   (\<not> fst (validateField f) \<longrightarrow>
      errorText (snd (validateField f)) \<noteq> [] \<and>
      errorText (snd (validateField f)) =
        (if fieldName f = js ''name'' then js ''Name must be at least 2 characters long''
         else if fieldName f = js ''email'' then js ''Please enter a valid email address''
         else js ''Message must be at least 10 characters long'')) \<and>
   (\<forall>g :: field. fieldName g = fieldName f \<and> trim (fieldValue g) = trim (fieldValue f) \<longrightarrow>
      fst (validateField g) = fst (validateField f) \<and>
      (\<not> fst (validateField f) \<longrightarrow>
         errorText (snd (validateField g)) = errorText (snd (validateField f))))"
proof (intro conjI impI allI)
  assume "fieldName f = js ''name''"
  then show "fst (validateField f) \<longleftrightarrow> 2 \<le> length (trim (fieldValue f))"
    by (auto simp: validateField_verdict checkField_def)
next
  assume "fieldName f = js ''message''"
  then show "fst (validateField f) \<longleftrightarrow> 10 \<le> length (trim (fieldValue f))"
    using field_names_distinct by (auto simp: validateField_verdict checkField_def)
next
  assume "fieldName f = js ''email''"
  then show "fst (validateField f) \<longleftrightarrow> email_shape (trim (fieldValue f))"
    using field_names_distinct
    by (auto simp: validateField_verdict checkField_def emailRegex_shape)
next
  assume inv: "\<not> fst (validateField f)"
  then have m: "errorText (snd (validateField f)) = snd (checkField (fieldName f) (trim (fieldValue f)))"
    by (rule validateField_message)
  from inv have c: "\<not> fst (checkField (fieldName f) (trim (fieldValue f)))"
    by (simp add: validateField_verdict)
  from m c show "errorText (snd (validateField f)) \<noteq> []"
    by (auto simp: checkField_def js_nonempty split: if_splits)
  from m c show "errorText (snd (validateField f)) =
        (if fieldName f = js ''name'' then js ''Name must be at least 2 characters long''
         else if fieldName f = js ''email'' then js ''Please enter a valid email address''
         else js ''Message must be at least 10 characters long'')"
    by (auto simp: checkField_def split: if_splits)
next
  fix g :: field
  assume "fieldName g = fieldName f \<and> trim (fieldValue g) = trim (fieldValue f)"
  then show "fst (validateField g) = fst (validateField f)"
    by (simp add: validateField_verdict)
next
  fix g :: field
  assume a: "fieldName g = fieldName f \<and> trim (fieldValue g) = trim (fieldValue f)"
    and b: "\<not> fst (validateField f)"
  from a b have "\<not> fst (validateField g)" by (simp add: validateField_verdict)
  with a b show "errorText (snd (validateField g)) = errorText (snd (validateField f))"
    by (simp add: validateField_message)
qed

theorem validateField_spec_witness:
  "fieldName (demo_field (js ''email'') (js '' ab@cd.ef '')) = js ''email''
   \<and> email_shape (trim (js '' ab@cd.ef ''))
   \<and> fieldName (demo_field (js ''name'') (js '' A '')) = js ''name''
   \<and> \<not> fst (validateField (demo_field (js ''name'') (js '' A '')))
   \<and> errorText (snd (validateField (demo_field (js ''name'') (js '' A '')))) \<noteq> []"
proof -
  have e: "fst (validateField (demo_field (js ''email'') (js '' ab@cd.ef '')))"
    by (simp add: validateField_def checkField_def trim_def isWhiteSpace_def js_def
        emailRegex_def plus_def lit_def notSpaceAt_def setFieldStatus_def demo_field_def)
  have n: "\<not> fst (validateField (demo_field (js ''name'') (js '' A '')))"
    by (simp add: validateField_def checkField_def trim_def isWhiteSpace_def js_def
        setFieldStatus_def demo_field_def)
  have fe: "fieldName (demo_field (js ''email'') (js '' ab@cd.ef '')) = js ''email''"
    and fv: "fieldValue (demo_field (js ''email'') (js '' ab@cd.ef '')) = js '' ab@cd.ef ''"
    and fn: "fieldName (demo_field (js ''name'') (js '' A '')) = js ''name''"
    by (simp_all add: demo_field_def)
  from validateField_spec [of "demo_field (js ''email'') (js '' ab@cd.ef '')"] e fe fv
  have "email_shape (trim (js '' ab@cd.ef ''))" by simp
  moreover from validateField_spec [of "demo_field (js ''name'') (js '' A '')"] n
  have "errorText (snd (validateField (demo_field (js ''name'') (js '' A '')))) \<noteq> []"
    by blast
  ultimately show ?thesis using fe fn n by blast
qed

section \<open>The submit handler\<close>

lemma validateAll_frame:
  "isSubmitting (snd (validateAll s)) = isSubmitting s"
  "submitDisabled (snd (validateAll s)) = submitDisabled s"
  "inFlight (snd (validateAll s)) = inFlight s"
  "notification (snd (validateAll s)) = notification s"
  by (simp_all add: validateAll_def Let_def case_prod_beta)

lemma setLoading_fields:
  "isSubmitting (setLoading b s) = b"
  "submitDisabled (setLoading b s) = b"
  "inFlight (setLoading b s) = inFlight s"
  "notification (setLoading b s) = notification s"
  by (simp_all add: setLoading_def Let_def)

lemma handleSubmit_busy: "isSubmitting s \<Longrightarrow> handleSubmit s = s"
  by (simp add: handleSubmit_def)

lemma handleSubmit_valid:
  assumes "\<not> isSubmitting s" and "fst (validateAll (setLoading True s))"
  shows "isSubmitting (handleSubmit s)" and "submitDisabled (handleSubmit s)"
    and "inFlight (handleSubmit s) \<noteq> None"
  using assms
  by (simp_all add: handleSubmit_def Let_def case_prod_beta validateAll_frame setLoading_fields)

lemma handleSubmit_invalid:
  assumes "\<not> isSubmitting s" and "\<not> fst (validateAll (setLoading True s))"
  shows "\<not> isSubmitting (handleSubmit s)" and "\<not> submitDisabled (handleSubmit s)"
    and "inFlight (handleSubmit s) = inFlight s"
    and "notification (handleSubmit s)
           = Some (js ''Please fill all required fields correctly'', ''error'')"
  using assms
  by (simp_all add: handleSubmit_def Let_def case_prod_beta setLoading_fields
      showNotification_def validateAll_frame)

lemma submitResolved_restores:
  "inFlight s \<noteq> None \<Longrightarrow>
     \<not> isSubmitting (submitResolved s) \<and> \<not> submitDisabled (submitResolved s)
     \<and> inFlight (submitResolved s) = None
     \<and> notification (submitResolved s) = Some (js ''Thank you for contacting me'', ''success'')"
  by (auto simp: submitResolved_def Let_def setLoading_fields showNotification_def)

lemma funpow_fixed: "f x = x \<Longrightarrow> (f ^^ n) x = x"
  by (induction n) simp_all

text \<open>
  C10. While \<open>isSubmitting\<close> holds, a submit event changes nothing. A submit event on an
  idle form either fails validation, and leaves the flag cleared and the button
  enabled, or starts a submission, with the flag set and the button disabled, during
  which further submit events change nothing; when the submission resolves, the flag
  is cleared and the button enabled.
\<close>

theorem handleSubmit_guarded:
  "(isSubmitting s \<longrightarrow> (handleSubmit ^^ n) s = s)
   \<and> (\<not> isSubmitting s \<longrightarrow>
        (if fst (validateAll (setLoading True s)) then
           isSubmitting (handleSubmit s) \<and> submitDisabled (handleSubmit s)
           \<and> inFlight (handleSubmit s) \<noteq> None
           \<and> (handleSubmit ^^ n) (handleSubmit s) = handleSubmit s
           \<and> \<not> isSubmitting (submitResolved (handleSubmit s))
           \<and> \<not> submitDisabled (submitResolved (handleSubmit s))
           \<and> inFlight (submitResolved (handleSubmit s)) = None
         else
           \<not> isSubmitting (handleSubmit s) \<and> \<not> submitDisabled (handleSubmit s)
           \<and> inFlight (handleSubmit s) = inFlight s
           \<and> notification (handleSubmit s)
                = Some (js ''Please fill all required fields correctly'', ''error'')))"
proof (intro conjI impI)
  assume "isSubmitting s"
  then show "(handleSubmit ^^ n) s = s"
    by (intro funpow_fixed handleSubmit_busy)
next
  assume a: "\<not> isSubmitting s"
  show "if fst (validateAll (setLoading True s)) then
           isSubmitting (handleSubmit s) \<and> submitDisabled (handleSubmit s)
           \<and> inFlight (handleSubmit s) \<noteq> None
           \<and> (handleSubmit ^^ n) (handleSubmit s) = handleSubmit s
           \<and> \<not> isSubmitting (submitResolved (handleSubmit s))
           \<and> \<not> submitDisabled (submitResolved (handleSubmit s))
           \<and> inFlight (submitResolved (handleSubmit s)) = None
         else
           \<not> isSubmitting (handleSubmit s) \<and> \<not> submitDisabled (handleSubmit s)
           \<and> inFlight (handleSubmit s) = inFlight s
           \<and> notification (handleSubmit s)
                = Some (js ''Please fill all required fields correctly'', ''error'')"
  proof (cases "fst (validateAll (setLoading True s))")
    case True
    note v = handleSubmit_valid [OF a True]
    from v(1) have "(handleSubmit ^^ n) (handleSubmit s) = handleSubmit s"
      by (intro funpow_fixed handleSubmit_busy)
    with True v submitResolved_restores [OF v(3)] show ?thesis by simp
  next
    case False
    with handleSubmit_invalid [OF a False] show ?thesis by simp
  qed
qed



section \<open>The update tick\<close>

lemmas animate_unfold = animate_def requestAnimationFrame_def getDelta_def getElapsedTime_def Let_def

lemma animate_work:
  assumes "isActive s" and "\<not> documentHidden h"
  shows "geometries (state_of (animate h s)) =
           map (animateMesh (elapsedTime (clock (state_of (animate h s))) * 1000)
                  (rotationSpeed (config s))) (geometries s)"
    and "particles (state_of (animate h s)) =
           map_option (\<lambda>p. p\<lparr>pointsTime := elapsedTime (clock (state_of (animate h s))) * 1000\<rparr>)
             (particles s)"
  using assms by (auto simp: animate_unfold split: option.splits)

lemma animate_idle:
  assumes "\<not> isActive s \<or> documentHidden h"
  shows "geometries (state_of (animate h s)) = geometries s"
    and "particles (state_of (animate h s)) = particles s"
    and "camera (state_of (animate h s)) = camera s"
    and "renderer (state_of (animate h s)) = renderer s"
    and "clock (state_of (animate h s)) = clock s"
  using assms by (auto simp: animate_unfold split: option.splits)

lemma animate_frame:
  "config (state_of (animate h s)) = config s"
  "mouse (state_of (animate h s)) = mouse s"
  "isActive (state_of (animate h s)) = isActive s"
  "scene (state_of (animate h s)) = scene s"
  "containerChildren (state_of (animate h s)) = containerChildren s"
  "windowListeners (state_of (animate h s)) = windowListeners s"
  "documentListeners (state_of (animate h s)) = documentListeners s"
  by (auto simp: animate_unfold split: option.splits)

lemma animate_camera:
  assumes "isActive s" and "\<not> documentHidden h" and "camera s = Some cam" and "scene s \<noteq> None"
  shows "camera (state_of (animate h s)) =
     Some (cam\<lparr>camX := steer (fst (mouse s)) (mouseEffect (config s)) (camX cam),
               camY := steer (snd (mouse s)) (mouseEffect (config s)) (camY cam),
               lookAtTarget := Some (Vector3 0 0 0)\<rparr>)"
  using assms by (auto simp: animate_unfold split: option.splits)

lemma animate_returns:
  assumes "camera s \<noteq> None" and "scene s \<noteq> None" and "renderer s \<noteq> None"
  shows "returned (animate h s)"
  using assms by (auto simp: animate_unfold split: option.splits)



section \<open>Disposal, hidden documents, resize\<close>

lemma state_of_andThen_isActive:
  assumes "\<not> isActive (state_of r)" and "\<And>x. \<not> isActive x \<Longrightarrow> \<not> isActive (state_of (f x))"
  shows "\<not> isActive (state_of (andThen r f))"
  using assms by (cases r) auto

lemma disposeMeshes_isActive: "isActive (state_of (disposeMeshes ixs s)) = isActive s"
  by (induction ixs arbitrary: s) (auto simp: Let_def split: option.splits)

lemma disposeParticles_isActive: "isActive (state_of (disposeParticles s)) = isActive s"
  by (auto simp: disposeParticles_def Let_def split: option.splits)

lemma disposeRenderer_isActive: "isActive (state_of (disposeRenderer s)) = isActive s"
  by (auto simp: disposeRenderer_def Let_def split: option.splits)

lemma cancelAnimationFrame_isActive: "isActive (cancelAnimationFrame f s) = isActive s"
  by (auto simp: cancelAnimationFrame_def split: option.splits)

lemma dispose_inactive: "\<not> isActive (state_of (dispose s))"
  unfolding dispose_def Let_def
  by (intro state_of_andThen_isActive)
    (simp_all add: disposeMeshes_isActive disposeParticles_isActive disposeRenderer_isActive
      cancelAnimationFrame_isActive)

lemma animate_inactive: "\<not> isActive s \<Longrightarrow> animate h s = Returned s"
  by (simp add: animate_def)

lemma run_ticks_inactive: "\<not> isActive s \<Longrightarrow> run (map Tick hs) s = s"
  by (induction hs) (simp_all add: animate_inactive)

lemma animate_hidden:
  "isActive s \<Longrightarrow> documentHidden h \<Longrightarrow>
   animate h s =
     Returned (s\<lparr>framesRequested := framesRequested s + 1,
                pendingFrames := pendingFrames s @ [framesRequested s + 1],
                frameId := Some (framesRequested s + 1)\<rparr>)"
  by (simp add: animate_def requestAnimationFrame_def Let_def)

text \<open>
  C6. After \<^verbatim>\<open>dispose\<close> every tick returns at once and changes nothing, so any
  number of them leaves the state as it is. A tick of a live controller on a hidden
  document requests the next frame and changes nothing else: clock, particles,
  solids, camera and renderer are those of before.
\<close>

theorem animate_disposed_hidden:
  "run (map Tick hs) (state_of (dispose s)) = state_of (dispose s)
   \<and> (\<not> isActive s \<longrightarrow> animate h s = Returned s)
   \<and> (isActive s \<and> documentHidden h \<longrightarrow>
        animate h s =
          Returned (s\<lparr>framesRequested := framesRequested s + 1,
                     pendingFrames := pendingFrames s @ [framesRequested s + 1],
                     frameId := Some (framesRequested s + 1)\<rparr>))"
  using run_ticks_inactive [OF dispose_inactive] animate_inactive animate_hidden by blast

lemma updateProjectionMatrix_idem:
  "updateProjectionMatrix ((updateProjectionMatrix (c\<lparr>aspect := a\<rparr>))\<lparr>aspect := a\<rparr>)
     = updateProjectionMatrix (c\<lparr>aspect := a\<rparr>)"
  by (simp add: updateProjectionMatrix_def)

text \<open>
  C7. The resize handler is idempotent: run again on the state it left, with the same
  viewport, it ends the same way in the same state; when it returns, the camera's
  aspect is width / height and the renderer has the size of the viewport.
\<close>

theorem onWindowResize_idempotent:
  "onWindowResize h (state_of (onWindowResize h s)) = onWindowResize h s
   \<and> (returned (onWindowResize h s) \<longrightarrow>
        (\<exists>cam r. camera (state_of (onWindowResize h s)) = Some cam
           \<and> aspect cam = jdiv_dim (real (innerWidth h)) (innerHeight h)
           \<and> renderer (state_of (onWindowResize h s)) = Some r
           \<and> rendererSize r = (innerWidth h, innerHeight h)))"
  by (auto simp: onWindowResize_def Let_def updateProjectionMatrix_def split: option.splits)



section \<open>Construction\<close>

lemma andThen_Returned:
  "andThen r f = Returned s \<longleftrightarrow> (\<exists>x. r = Returned x \<and> f x = Returned s)"
  by (cases r) auto

lemma representable_bounds:
  "representable 53 (- 1022) (1 / 2)" "representable 53 (- 1022) (- (1 / 2))"
  "representable 53 (- 1022) 25" "representable 53 (- 1022) (- 25)"
  "representable 24 (- 126) 25" "representable 24 (- 126) (- 25)"
  "representable 24 (- 126) 0" "representable 24 (- 126) 1"
proof -
  show "representable 53 (- 1022) (1 / 2)"
    using representable_scaled [of 1 53 "- 1022" "- 1"] by (simp add: power_int_minus)
  show "representable 53 (- 1022) (- (1 / 2))"
    using representable_scaled [of "- 1" 53 "- 1022" "- 1"] by (simp add: power_int_minus)
  show "representable 53 (- 1022) 25"
    using representable_int [of 25 53 "- 1022"] by simp
  show "representable 53 (- 1022) (- 25)"
    using representable_int [of "- 25" 53 "- 1022"] by simp
  show "representable 24 (- 126) 25"
    using representable_int [of 25 24 "- 126"] by simp
  show "representable 24 (- 126) (- 25)"
    using representable_int [of "- 25" 24 "- 126"] by simp
  show "representable 24 (- 126) 0"
    using representable_int [of 0 24 "- 126"] by simp
  show "representable 24 (- 126) 1"
    using representable_int [of 1 24 "- 126"] by simp
qed

lemma coordinate_bounds:
  assumes "0 \<le> r" and "r < 1"
  shows "- 25 \<le> fround (fl64 (fl64 (r - 1 / 2) * 50))"
    and "fround (fl64 (fl64 (r - 1 / 2) * 50)) \<le> 25"
proof -
  have a: "- (1 / 2) \<le> fl64 (r - 1 / 2)" "fl64 (r - 1 / 2) \<le> 1 / 2"
    unfolding fl64_def using assms
    by (intro round_to_ge round_to_le representable_bounds; simp)+
  then have b: "- 25 \<le> fl64 (fl64 (r - 1 / 2) * 50)" "fl64 (fl64 (r - 1 / 2) * 50) \<le> 25"
    unfolding fl64_def
    by (intro round_to_ge round_to_le representable_bounds; simp)+
  then show "- 25 \<le> fround (fl64 (fl64 (r - 1 / 2) * 50))"
    and "fround (fl64 (fl64 (r - 1 / 2) * 50)) \<le> 25"
    unfolding fround_def
    by (intro round_to_ge round_to_le representable_bounds; simp)+
qed

lemma scale_bounds:
  assumes "0 \<le> r" and "r < 1"
  shows "0 \<le> fround r" and "fround r \<le> 1"
  unfolding fround_def using assms
  by (intro round_to_ge round_to_le representable_bounds; simp)+

lemma fillParticles_step:
  "i < n \<Longrightarrow> fillParticles rnd n i (ps, ss, k) =
     fillParticles rnd n (i + 1)
       (ps[i * 3 := fround (fl64 (fl64 (rnd k - 1 / 2) * 50)),
           i * 3 + 1 := fround (fl64 (fl64 (rnd (k + 1) - 1 / 2) * 50)),
           i * 3 + 2 := fround (fl64 (fl64 (rnd (k + 2) - 1 / 2) * 50))],
        ss[i := fround (rnd (k + 3))], k + 4)"
  "\<not> i < n \<Longrightarrow> fillParticles rnd n i (ps, ss, k) = (ps, ss, k)"
  by (simp_all add: fillParticles.simps [of rnd n i])

lemma fillParticles_length:
  "fillParticles rnd n i (ps, ss, k) = (ps', ss', k') \<Longrightarrow>
     length ps' = length ps \<and> length ss' = length ss \<and> k' = k + 4 * (n - i)"
proof (induction rnd n i "(ps, ss, k)" arbitrary: ps ss k rule: fillParticles.induct)
  case (1 rnd n i ps ss k)
  show ?case
  proof (cases "i < n")
    case True
    from "1.hyps" [OF True] "1.prems" True show ?thesis
      by (simp add: fillParticles_step(1))
  next
    case False
    with "1.prems" show ?thesis by (simp add: fillParticles_step(2))
  qed
qed

lemma set_update_bound: "set xs \<subseteq> A \<Longrightarrow> v \<in> A \<Longrightarrow> set (xs[i := v]) \<subseteq> A"
  using set_update_subset_insert [of xs i v] by auto

lemma fillParticles_range:
  assumes rnd: "\<And>j. 0 \<le> rnd j \<and> rnd j < 1"
  shows "fillParticles rnd n i (ps, ss, k) = (ps', ss', k') \<Longrightarrow>
     set ps \<subseteq> {- 25 .. 25} \<Longrightarrow> set ss \<subseteq> {0 .. 1} \<Longrightarrow>
     set ps' \<subseteq> {- 25 .. 25} \<and> set ss' \<subseteq> {0 .. 1}"
  using rnd
proof (induction rnd n i "(ps, ss, k)" arbitrary: ps ss k rule: fillParticles.induct)
  case (1 rnd n i ps ss k)
  have p: "fround (fl64 (fl64 (rnd j - 1 / 2) * 50)) \<in> {- 25 .. 25}"
    and q: "fround (rnd j) \<in> {0 .. 1}" for j
    using "1.prems"(4) [of j] coordinate_bounds [of "rnd j"] scale_bounds [of "rnd j"] by auto
  show ?case
  proof (cases "i < n")
    case True
    have "set (ps[i * 3 := fround (fl64 (fl64 (rnd k - 1 / 2) * 50)),
             i * 3 + 1 := fround (fl64 (fl64 (rnd (k + 1) - 1 / 2) * 50)),
             i * 3 + 2 := fround (fl64 (fl64 (rnd (k + 2) - 1 / 2) * 50))]) \<subseteq> {- 25 .. 25}"
      by (intro set_update_bound "1.prems"(2) p)
    moreover have "set (ss[i := fround (rnd (k + 3))]) \<subseteq> {0 .. 1}"
      by (intro set_update_bound "1.prems"(3) q)
    ultimately show ?thesis
      using "1.hyps" [OF True] "1.prems"(1,4) True by (simp add: fillParticles_step(1))
  next
    case False
    with "1.prems" show ?thesis by (simp add: fillParticles_step(2))
  qed
qed

text \<open>What the loop leaves at each index: below \<open>i\<close> what was there, from \<open>i\<close> on the samples.\<close>

lemma fillParticles_content:
  "fillParticles rnd n i (ps, ss, k) = (ps', ss', k') \<Longrightarrow>
     length ps = 3 * n \<Longrightarrow> length ss = n \<Longrightarrow>
     (\<forall>j d. i \<le> j \<and> j < n \<and> d < 3 \<longrightarrow>
        ps' ! (3 * j + d) = fround (fl64 (fl64 (rnd (k + 4 * (j - i) + d) - 1 / 2) * 50)))
     \<and> (\<forall>j. i \<le> j \<and> j < n \<longrightarrow> ss' ! j = fround (rnd (k + 4 * (j - i) + 3)))
     \<and> (\<forall>m < 3 * i. ps' ! m = ps ! m) \<and> (\<forall>j < i. ss' ! j = ss ! j)"
proof (induction rnd n i "(ps, ss, k)" arbitrary: ps ss k rule: fillParticles.induct)
  case (1 rnd n i ps ss k)
  show ?case
  proof (cases "i < n")
    case False
    with "1.prems" show ?thesis by (simp add: fillParticles_step(2))
  next
    case True
    let ?f = "\<lambda>r. fround (fl64 (fl64 (r - 1 / 2) * 50))"
    let ?ps = "ps[i * 3 := ?f (rnd k), i * 3 + 1 := ?f (rnd (k + 1)), i * 3 + 2 := ?f (rnd (k + 2))]"
    let ?ss = "ss[i := fround (rnd (k + 3))]"
    from "1.prems"(1) True have step: "fillParticles rnd n (i + 1) (?ps, ?ss, k + 4) = (ps', ss', k')"
      by (simp add: fillParticles_step(1))
    from "1.hyps" [OF True step] "1.prems"(2,3)
    have A: "\<And>j d. i + 1 \<le> j \<Longrightarrow> j < n \<Longrightarrow> d < 3 \<Longrightarrow>
               ps' ! (3 * j + d) = ?f (rnd (k + 4 + 4 * (j - (i + 1)) + d))"
      and B: "\<And>j. i + 1 \<le> j \<Longrightarrow> j < n \<Longrightarrow> ss' ! j = fround (rnd (k + 4 + 4 * (j - (i + 1)) + 3))"
      and C: "\<And>m. m < 3 * (i + 1) \<Longrightarrow> ps' ! m = ?ps ! m"
      and D: "\<And>j. j < i + 1 \<Longrightarrow> ss' ! j = ?ss ! j"
      by simp_all
    have lp: "3 * i + 2 < length ps" and ls: "i < length ss"
      using True "1.prems"(2,3) by simp_all
    have 1: "ps' ! (3 * j + d) = ?f (rnd (k + 4 * (j - i) + d))"
      if "i \<le> j" "j < n" "d < 3" for j d
    proof (cases "j = i")
      case False
      with that have j: "i + 1 \<le> j" by simp
      then have "k + 4 + 4 * (j - (i + 1)) + d = k + 4 * (j - i) + d" by simp
      with A [OF j that(2,3)] show ?thesis by (simp only:)
    next
      case True
      from that(3) have "d = 0 \<or> d = 1 \<or> d = 2" by auto
      moreover have "3 * i + d < 3 * (i + 1)" using that(3) by simp
      ultimately show ?thesis
        using C [of "3 * i + d"] lp True by (auto simp: mult.commute)
    qed
    have 2: "ss' ! j = fround (rnd (k + 4 * (j - i) + 3))" if "i \<le> j" "j < n" for j
    proof (cases "j = i")
      case False
      with that have j: "i + 1 \<le> j" by simp
      then have "k + 4 + 4 * (j - (i + 1)) + 3 = k + 4 * (j - i) + 3" by simp
      with B [OF j that(2)] show ?thesis by (simp only:)
    next
      case True
      with D [of i] ls show ?thesis by simp
    qed
    have 3: "ps' ! m = ps ! m" if "m < 3 * i" for m
      using C [of m] that by (simp add: mult.commute)
    have 4: "ss' ! j = ss ! j" if "j < i" for j
      using D [of j] that by simp
    from 1 2 3 4 show ?thesis by blast
  qed
qed

lemma createParticles_Returned:
  assumes "createParticles h s = Returned s'"
  shows "\<exists>pt. particles s' = Some pt
           \<and> sampled_field (random h) (randomCalls s) (particleCount (config s)) pt
           \<and> ((\<forall>j. 0 \<le> random h j \<and> random h j < 1) \<longrightarrow>
                set (positions pt) \<subseteq> {- 25 .. 25} \<and> set (scales pt) \<subseteq> {0 .. 1})"
    and "geometries s' = geometries s" and "config s' = config s"
    and "camera s' = camera s" and "renderer s' = renderer s"
    and "scene s' \<noteq> None" and "isActive s' = isActive s"
    and "randomCalls s' = randomCalls s + 4 * particleCount (config s)"
    and "containerChildren s' = containerChildren s"
    and "mouse s' = mouse s"
    and "3 * particleCount (config s) \<le> typedArrayLimit h"
proof -
  let ?n = "particleCount (config s)"
  obtain ps ss k where f:
    "fillParticles (random h) ?n 0 (replicate (?n * 3) 0, replicate ?n 0, randomCalls s) = (ps, ss, k)"
    by (metis prod_cases3)
  from assms have lim: "\<not> typedArrayLimit h < ?n * 3" "\<not> typedArrayLimit h < ?n"
    by (auto simp: createParticles_def Float32Array_def split: if_splits)
  from assms f lim obtain ch where ch: "scene s = Some ch"
    and s': "s' = s\<lparr>randomCalls := k,
               particles := Some \<lparr>positions = ps, scales = ss, pointsTime = 0,
                 pointsGeometryDisposed = 0, pointsMaterialDisposed = 0\<rparr>,
               scene := Some (ch @ [ParticlesObject])\<rparr>"
    by (auto simp: createParticles_def Float32Array_def Let_def split: option.splits)
  from fillParticles_length [OF f] have len: "length ps = ?n * 3" "length ss = ?n" "k = randomCalls s + 4 * ?n"
    by simp_all
  from fillParticles_content [OF f] have
    "(\<forall>j d. j < ?n \<and> d < 3 \<longrightarrow>
        ps ! (3 * j + d) = fround (fl64 (fl64 (random h (randomCalls s + 4 * j + d) - 1 / 2) * 50)))
     \<and> (\<forall>j < ?n. ss ! j = fround (random h (randomCalls s + 4 * j + 3)))"
    by simp
  with len have cnt: "sampled_field (random h) (randomCalls s) ?n
      \<lparr>positions = ps, scales = ss, pointsTime = 0,
       pointsGeometryDisposed = 0, pointsMaterialDisposed = 0\<rparr>"
    by (simp add: sampled_field_def)
  have rng: "set ps \<subseteq> {- 25 .. 25} \<and> set ss \<subseteq> {0 .. 1}"
    if "\<forall>j. 0 \<le> random h j \<and> random h j < 1"
  proof -
    have z: "set (replicate (?n * 3) (0::real)) \<subseteq> {- 25 .. 25}"
      "set (replicate ?n (0::real)) \<subseteq> {0 .. 1}"
      by auto
    from that have "\<And>j. 0 \<le> random h j \<and> random h j < 1" by blast
    from fillParticles_range [OF this f z] show ?thesis .
  qed
  show "\<exists>pt. particles s' = Some pt
           \<and> sampled_field (random h) (randomCalls s) (particleCount (config s)) pt
           \<and> ((\<forall>j. 0 \<le> random h j \<and> random h j < 1) \<longrightarrow>
                set (positions pt) \<subseteq> {- 25 .. 25} \<and> set (scales pt) \<subseteq> {0 .. 1})"
    using s' cnt rng by simp
  show "geometries s' = geometries s" "config s' = config s" "camera s' = camera s"
    "renderer s' = renderer s" "scene s' \<noteq> None" "isActive s' = isActive s"
    "randomCalls s' = randomCalls s + 4 * particleCount (config s)"
    "containerChildren s' = containerChildren s" "mouse s' = mouse s"
    using s' len by simp_all
  show "3 * particleCount (config s) \<le> typedArrayLimit h" using lim by simp
qed


lemma createParticles_returned_iff:
  "scene s \<noteq> None \<Longrightarrow>
     returned (createParticles h s) \<longleftrightarrow> 3 * particleCount (config s) \<le> typedArrayLimit h"
  by (auto simp: createParticles_def Float32Array_def Let_def split: option.splits prod.splits)

lemma addMeshes_frame:
  "config (addMeshes h gs s) = config s"
  "camera (addMeshes h gs s) = camera s"
  "renderer (addMeshes h gs s) = renderer s"
  "particles (addMeshes h gs s) = particles s"
  "isActive (addMeshes h gs s) = isActive s"
  "mouse (addMeshes h gs s) = mouse s"
  "containerChildren (addMeshes h gs s) = containerChildren s"
  "scene s \<noteq> None \<Longrightarrow> scene (addMeshes h gs s) \<noteq> None"
  by (induction gs arbitrary: s) auto

lemma addMeshes_geometries:
  "geometries (addMeshes h gs s) =
     geometries s @ map (\<lambda>i. makeMesh (random h) (randomCalls s + 8 * i) (gs ! i)) [0..<length gs]"
proof (induction gs arbitrary: s)
  case Nil
  show ?case by simp
next
  case (Cons g gs)
  have "map (\<lambda>i. makeMesh (random h) (randomCalls s + 8 * i) ((g # gs) ! i)) [0..<length (g # gs)]
      = makeMesh (random h) (randomCalls s) g
        # map (\<lambda>i. makeMesh (random h) (randomCalls s + 8 + 8 * i) (gs ! i)) [0..<length gs]"
    by (simp add: upt_rec [of 0] map_Suc_upt [symmetric] del: upt_Suc) (simp add: add.assoc)
  then show ?case by (simp add: Cons.IH)
qed

lemma createFloatingGeometries_Returned:
  assumes "createFloatingGeometries h s = Returned s'"
  shows "geometries s' =
           geometries s @ map (\<lambda>i. makeMesh (random h) (randomCalls s + 8 * i) (geometryKinds ! i))
             [0..<length geometryKinds]"
    and "config s' = config s" and "camera s' = camera s" and "renderer s' = renderer s"
    and "particles s' = particles s" and "isActive s' = isActive s" and "mouse s' = mouse s"
    and "containerChildren s' = containerChildren s" and "scene s' \<noteq> None"
proof -
  from assms obtain ch where ch: "scene s = Some ch"
    and s': "s' = addMeshes h geometryKinds (s\<lparr>scene := Some (ch @ [AmbientLight, PointLight])\<rparr>)"
    by (auto simp: createFloatingGeometries_def split: option.splits)
  show "geometries s' =
           geometries s @ map (\<lambda>i. makeMesh (random h) (randomCalls s + 8 * i) (geometryKinds ! i))
             [0..<length geometryKinds]"
    "config s' = config s" "camera s' = camera s" "renderer s' = renderer s"
    "particles s' = particles s" "isActive s' = isActive s" "mouse s' = mouse s"
    "containerChildren s' = containerChildren s"
    by (simp_all add: s' addMeshes_geometries addMeshes_frame)
  show "scene s' \<noteq> None"
    unfolding s' by (rule addMeshes_frame) simp
qed

lemma createFloatingGeometries_returned:
  "scene s \<noteq> None \<Longrightarrow> returned (createFloatingGeometries h s)"
  by (auto simp: createFloatingGeometries_def split: option.splits)

lemma addEventListeners_frame:
  "geometries (addEventListeners s) = geometries s"
  "config (addEventListeners s) = config s"
  "camera (addEventListeners s) = camera s"
  "renderer (addEventListeners s) = renderer s"
  "particles (addEventListeners s) = particles s"
  "isActive (addEventListeners s) = isActive s"
  "mouse (addEventListeners s) = mouse s"
  "scene (addEventListeners s) = scene s"
  "containerChildren (addEventListeners s) = containerChildren s"
  by (simp_all add: addEventListeners_def Let_def)

lemma animateMesh_fields:
  "meshGeometry (animateMesh t a m) = meshGeometry m"
  "initialY (animateMesh t a m) = initialY m"
  "speed (animateMesh t a m) = speed m"
  "offset (animateMesh t a m) = offset m"
  "rotationAxis (animateMesh t a m) = rotationAxis m"
  "geometryDisposed (animateMesh t a m) = geometryDisposed m"
  "materialDisposed (animateMesh t a m) = materialDisposed m"
  "rotations (animateMesh t a m) = rotations m @ [(rotationAxis m, a)]"
  "vy (position (animateMesh t a m)) = initialY m + sin (t * speed m + offset m) * (15 / 10)"
  by (simp_all add: animateMesh_def)

lemma length_geometryKinds: "length geometryKinds = 4"
  by (simp add: geometryKinds_def)



lemma createSurface_fields:
  "scene (createSurface h s) = Some []"
  "camera (createSurface h s) \<noteq> None"
  "renderer (createSurface h s) \<noteq> None"
  "geometries (createSurface h s) = geometries s"
  "particles (createSurface h s) = particles s"
  "config (createSurface h s) = config s"
  "isActive (createSurface h s) = isActive s"
  "mouse (createSurface h s) = mouse s"
  "randomCalls (createSurface h s) = randomCalls s"
  "RendererCanvas \<in> set (containerChildren (createSurface h s))"
  "bodyBackground (createSurface h s) = bodyBackground s"
  "frameId (createSurface h s) = frameId s"
  by (simp_all add: createSurface_def Let_def)

lemma createParticles_frame2:
  "createParticles h s = Returned s' \<Longrightarrow>
     bodyBackground s' = bodyBackground s \<and> frameId s' = frameId s"
  by (auto simp: createParticles_def Let_def split: option.splits prod.splits)

lemma addMeshes_frame2:
  "bodyBackground (addMeshes h gs s) = bodyBackground s"
  "frameId (addMeshes h gs s) = frameId s"
  by (induction gs arbitrary: s) auto

lemma createFloatingGeometries_frame2:
  "createFloatingGeometries h s = Returned s' \<Longrightarrow>
     bodyBackground s' = bodyBackground s \<and> frameId s' = frameId s"
  by (auto simp: createFloatingGeometries_def addMeshes_frame2 split: option.splits)

lemma addEventListeners_frame2:
  "bodyBackground (addEventListeners s) = bodyBackground s"
  "frameId (addEventListeners s) = frameId s"
  "framesRequested (addEventListeners s) = framesRequested s"
  "pendingFrames (addEventListeners s) = pendingFrames s"
  by (simp_all add: addEventListeners_def Let_def)


lemma animate_frame2: "bodyBackground (state_of (animate h s)) = bodyBackground s"
  by (auto simp: animate_unfold split: option.splits)

lemma animate_positions:
  "map_option positions (particles (state_of (animate h s))) = map_option positions (particles s)"
  "map_option scales (particles (state_of (animate h s))) = map_option scales (particles s)"
  by (auto simp: animate_unfold option.map_comp comp_def split: option.splits)

lemma animate_geometries_cases:
  "geometries (state_of (animate h s)) = geometries s
   \<or> (\<exists>t. geometries (state_of (animate h s)) = map (animateMesh t (rotationSpeed (config s))) (geometries s))"
  using animate_work(1) [of s h] animate_idle(1) [of s h] by blast

lemma animate_not_None:
  "camera s \<noteq> None \<Longrightarrow> camera (state_of (animate h s)) \<noteq> None"
  "renderer s \<noteq> None \<Longrightarrow> renderer (state_of (animate h s)) \<noteq> None"
  by (auto simp: animate_unfold split: option.splits)

text \<open>What a returning init has built.\<close>

lemma init_Returned:
  assumes i: "init h s0 = Returned s" and g0: "geometries s0 = []"
  shows "isWebGLAvailable h" and "3 * particleCount (config s0) \<le> typedArrayLimit h"
    and "\<exists>pt. particles s = Some pt
           \<and> sampled_field (random h) (randomCalls s0) (particleCount (config s0)) pt
           \<and> ((\<forall>j. 0 \<le> random h j \<and> random h j < 1) \<longrightarrow>
                set (positions pt) \<subseteq> {- 25 .. 25} \<and> set (scales pt) \<subseteq> {0 .. 1})"
    and "\<exists>F. (F = id \<or> (\<exists>t. F = animateMesh t (rotationSpeed (config s0))))
           \<and> geometries s =
               map (\<lambda>i. F (makeMesh (random h)
                             (randomCalls s0 + 4 * particleCount (config s0) + 8 * i)
                             (geometryKinds ! i))) [0..<4]"
    and "camera s \<noteq> None" and "scene s \<noteq> None" and "renderer s \<noteq> None"
    and "RendererCanvas \<in> set (containerChildren s)"
    and "config s = config s0" and "isActive s = isActive s0" and "mouse s = mouse s0"
    and "bodyBackground s = bodyBackground s0"
    and "threeDefined h"
proof -
  from i show w: "isWebGLAvailable h" and t: "threeDefined h"
    by (auto simp: init_def split: if_splits)
  with i obtain s2 s3 where
    cp: "createParticles h (createSurface h s0) = Returned s2" and
    cf: "createFloatingGeometries h s2 = Returned s3" and
    an: "animate h (addEventListeners s3) = Returned s"
    by (auto simp: init_def andThen_Returned)
  note P = createParticles_Returned [OF cp, unfolded createSurface_fields]
  note F = createFloatingGeometries_Returned [OF cf]
  let ?x = "addEventListeners s3"
  have s: "s = state_of (animate h ?x)" by (simp add: an)
  from P(11) show "3 * particleCount (config s0) \<le> typedArrayLimit h" .
  from P(1) obtain pt where pt: "particles s2 = Some pt"
    "sampled_field (random h) (randomCalls s0) (particleCount (config s0)) pt"
    "(\<forall>j. 0 \<le> random h j \<and> random h j < 1) \<longrightarrow>
                set (positions pt) \<subseteq> {- 25 .. 25} \<and> set (scales pt) \<subseteq> {0 .. 1}"
    by blast
  have px: "particles ?x = Some pt" by (simp add: addEventListeners_frame F pt)
  from animate_positions [of h ?x] px
  have "map_option positions (particles s) = Some (positions pt)"
    "map_option scales (particles s) = Some (scales pt)"
    by (simp_all add: s)
  then obtain pt' where "particles s = Some pt'" "positions pt' = positions pt" "scales pt' = scales pt"
    by auto
  with pt show "\<exists>pt. particles s = Some pt
           \<and> sampled_field (random h) (randomCalls s0) (particleCount (config s0)) pt
           \<and> ((\<forall>j. 0 \<le> random h j \<and> random h j < 1) \<longrightarrow>
                set (positions pt) \<subseteq> {- 25 .. 25} \<and> set (scales pt) \<subseteq> {0 .. 1})"
    by (simp add: sampled_field_def)
  have gx: "geometries ?x =
      map (\<lambda>i. makeMesh (random h) (randomCalls s0 + 4 * particleCount (config s0) + 8 * i)
                 (geometryKinds ! i)) [0..<4]"
    by (simp add: addEventListeners_frame F P g0 length_geometryKinds)
  have cx: "config ?x = config s0" by (simp add: addEventListeners_frame F P)
  from animate_geometries_cases [of h ?x]
  show "\<exists>F. (F = id \<or> (\<exists>t. F = animateMesh t (rotationSpeed (config s0))))
           \<and> geometries s =
               map (\<lambda>i. F (makeMesh (random h)
                             (randomCalls s0 + 4 * particleCount (config s0) + 8 * i)
                             (geometryKinds ! i))) [0..<4]"
  proof
    assume "geometries (state_of (animate h ?x)) = geometries ?x"
    then have "geometries s =
               map (\<lambda>i. id (makeMesh (random h)
                             (randomCalls s0 + 4 * particleCount (config s0) + 8 * i)
                             (geometryKinds ! i))) [0..<4]"
      by (simp add: s gx)
    then show ?thesis by blast
  next
    assume "\<exists>t. geometries (state_of (animate h ?x)) =
                  map (animateMesh t (rotationSpeed (config ?x))) (geometries ?x)"
    then obtain t where "geometries s = map (animateMesh t (rotationSpeed (config s0))) (geometries ?x)"
      by (auto simp: s cx)
    then have "geometries s =
               map (\<lambda>i. animateMesh t (rotationSpeed (config s0)) (makeMesh (random h)
                             (randomCalls s0 + 4 * particleCount (config s0) + 8 * i)
                             (geometryKinds ! i))) [0..<4]"
      by (simp add: gx comp_def)
    then show ?thesis by blast
  qed
  have "camera ?x \<noteq> None" "renderer ?x \<noteq> None"
    using createSurface_fields(2,3) [of h s0] by (simp_all add: addEventListeners_frame F P(4,5))
  then show "camera s \<noteq> None" "renderer s \<noteq> None"
    unfolding s by (simp_all add: animate_not_None)
  show "scene s \<noteq> None" "config s = config s0" "isActive s = isActive s0" "mouse s = mouse s0"
    by (simp_all add: s animate_frame addEventListeners_frame F P)
  show "RendererCanvas \<in> set (containerChildren s)"
    by (simp add: s animate_frame addEventListeners_frame F P createSurface_fields)
  show "bodyBackground s = bodyBackground s0"
    using createParticles_frame2 [OF cp] createFloatingGeometries_frame2 [OF cf]
    by (simp add: s animate_frame2 addEventListeners_frame2 createSurface_fields)
qed

lemma init_returned_iff:
  "returned (init h s0) \<longleftrightarrow>
     isWebGLAvailable h \<and> threeDefined h \<and> 3 * particleCount (config s0) \<le> typedArrayLimit h"
proof (cases "isWebGLAvailable h \<and> threeDefined h")
  case False
  then show ?thesis by (auto simp: init_def)
next
  case True
  let ?s1 = "createSurface h s0"
  have sc: "scene ?s1 \<noteq> None" by (simp add: createSurface_fields)
  show ?thesis
  proof (cases "createParticles h ?s1")
    case (Thrown e x)
    with createParticles_returned_iff [OF sc, of h] True show ?thesis
      by (simp add: init_def createSurface_fields)
  next
    case (Returned s2)
    note P = createParticles_Returned [OF Returned]
    from createFloatingGeometries_returned [OF P(6), of h]
    obtain s3 where cf: "createFloatingGeometries h s2 = Returned s3"
      by (cases "createFloatingGeometries h s2") auto
    note F = createFloatingGeometries_Returned [OF cf]
    have "returned (animate h (addEventListeners s3))"
      using createSurface_fields(2,3) [of h s0] P(6)
      by (intro animate_returns) (simp_all add: addEventListeners_frame F P(4,5))
    with Returned cf True createParticles_returned_iff [OF sc, of h] show ?thesis
      by (simp add: init_def createSurface_fields)
  qed
qed


section \<open>Invariants over events\<close>

lemma onWindowResize_frame:
  "geometries (state_of (onWindowResize h s)) = geometries s"
  "particles (state_of (onWindowResize h s)) = particles s"
  "config (state_of (onWindowResize h s)) = config s"
  "mouse (state_of (onWindowResize h s)) = mouse s"
  "isActive (state_of (onWindowResize h s)) = isActive s"
  "scene (state_of (onWindowResize h s)) = scene s"
  by (auto simp: onWindowResize_def Let_def split: option.splits)

lemma onMouseMove_frame:
  "geometries (onMouseMove cx cy h s) = geometries s"
  "particles (onMouseMove cx cy h s) = particles s"
  "config (onMouseMove cx cy h s) = config s"
  "isActive (onMouseMove cx cy h s) = isActive s"
  "scene (onMouseMove cx cy h s) = scene s"
  "camera (onMouseMove cx cy h s) = camera s"
  "renderer (onMouseMove cx cy h s) = renderer s"
  by (simp_all add: onMouseMove_def)

lemma animate_geometries_map:
  "\<exists>F. (F = id \<or> (\<exists>t. F = animateMesh t (rotationSpeed (config s))))
       \<and> geometries (state_of (animate h s)) = map F (geometries s)"
  using animate_geometries_cases [of h s] by (metis list.map_id0 id_apply list.map_id)

lemma handle_geometries_map:
  "\<exists>F. (F = id \<or> (\<exists>t. F = animateMesh t (rotationSpeed (config s))))
       \<and> geometries (state_of (handle e s)) = map F (geometries s)"
proof (cases e)
  case (Tick h)
  then show ?thesis using animate_geometries_map [of s h] by simp
next
  case (Resize h)
  then show ?thesis by (auto simp: onWindowResize_frame)
next
  case (MouseMove cx cy h)
  then show ?thesis by (auto simp: onMouseMove_frame)
qed

lemma handle_particles:
  "map_option positions (particles (state_of (handle e s))) = map_option positions (particles s)"
  "map_option scales (particles (state_of (handle e s))) = map_option scales (particles s)"
  by (cases e; simp add: animate_positions onWindowResize_frame onMouseMove_frame)+

lemma handle_config: "config (state_of (handle e s)) = config s"
  by (cases e) (simp_all add: animate_frame onWindowResize_frame onMouseMove_frame)

lemma solid_identity_animateMesh: "solid_identity (animateMesh t a m) = solid_identity m"
  by (simp add: solid_identity_def animateMesh_fields)

lemma handle_identity:
  "map solid_identity (geometries (state_of (handle e s))) = map solid_identity (geometries s)"
  using handle_geometries_map [of s e] by (auto simp: solid_identity_animateMesh)

lemma run_particles:
  "map_option positions (particles (run es s)) = map_option positions (particles s)"
  "map_option scales (particles (run es s)) = map_option scales (particles s)"
  by (induction es arbitrary: s) (simp_all add: handle_particles)

lemma run_identity:
  "map solid_identity (geometries (run es s)) = map solid_identity (geometries s)"
  by (induction es arbitrary: s) (simp_all add: handle_identity)

lemma run_config: "config (run es s) = config s"
  by (induction es arbitrary: s) (simp_all add: handle_config)






lemma newFields_geometries: "geometries (newFields cfg p) = []"
  "config (newFields cfg p) = cfg" "randomCalls (newFields cfg p) = randomCalls p"
  "isActive (newFields cfg p)" "bodyBackground (newFields cfg p) = bodyBackground p"
  "containerChildren (newFields cfg p) = containerChildren p"
  "mouse (newFields cfg p) = (Num 0, Num 0)"
  by (simp_all add: newFields_def)




lemma solid_identity_geometry:
  "map meshGeometry ms = map (fst \<circ> solid_identity) ms"
  by (simp_all add: solid_identity_def comp_def)

lemma run_meshGeometry: "map meshGeometry (geometries (run es s)) = map meshGeometry (geometries s)"
  unfolding solid_identity_geometry map_map [symmetric] run_identity ..

lemma makeMesh_fields:
  "meshGeometry (makeMesh rnd k g) = g"
  by (simp_all add: makeMesh_def Let_def)

lemma init_meshGeometry:
  assumes "init h s0 = Returned s" and "geometries s0 = []"
  shows "map meshGeometry (geometries s) = geometryKinds"
proof -
  have k: "map (\<lambda>i. geometryKinds ! i) [0..<4] = geometryKinds"
    using map_nth [of geometryKinds] by (simp add: length_geometryKinds)
  from init_Returned(4) [OF assms] show ?thesis
    by (auto simp: comp_def animateMesh_fields makeMesh_fields k)
qed

text \<open>
  C8, as amended. After setup the particle field holds \<open>particleCount\<close> positions
  (three coordinates each) and \<open>particleCount\<close> scales, the binary32 values of the
  samples: coordinate \<open>d\<close> of particle \<open>i\<close> is \<^verbatim>\<open>(r - 0.5) * 50\<close> for the outcome
  \<open>r\<close> of call \<open>4 * i + d\<close> of \<^verbatim>\<open>Math.random()\<close>, and its scale is the outcome of
  call \<open>4 * i + 3\<close>. For outcomes in \<open>[0, 1)\<close> the coordinates are in \<open>[-25, 25]\<close>
  and the scales in \<open>[0, 1]\<close>, both ends included. There is one solid per geometry
  kind; no sequence of ticks, resizes and pointer moves changes the positions, the
  scales, or the list of solids' kinds.
\<close>

theorem particle_field_fixed:
  assumes "init h (newFields cfg p) = Returned s"
    and "\<forall>j. 0 \<le> random h j \<and> random h j < 1"
  shows "\<exists>pt. particles s = Some pt
           \<and> length (positions pt) = 3 * particleCount cfg
           \<and> length (scales pt) = particleCount cfg
           \<and> (\<forall>i d. i < particleCount cfg \<and> d < 3 \<longrightarrow>
                 positions pt ! (3 * i + d)
                   = fround (fl64 (fl64 (random h (randomCalls p + 4 * i + d) - 1 / 2) * 50)))
           \<and> (\<forall>i < particleCount cfg.
                 scales pt ! i = fround (random h (randomCalls p + 4 * i + 3)))
           \<and> (\<forall>c \<in> set (positions pt). - 25 \<le> c \<and> c \<le> 25)
           \<and> (\<forall>c \<in> set (scales pt). 0 \<le> c \<and> c \<le> 1)
           \<and> map meshGeometry (geometries s) = geometryKinds
           \<and> length (geometries s) = 4
           \<and> (\<forall>es. map_option positions (particles (run es s)) = Some (positions pt)
                  \<and> map_option scales (particles (run es s)) = Some (scales pt)
                  \<and> map meshGeometry (geometries (run es s)) = geometryKinds
                  \<and> length (geometries (run es s)) = 4)"
proof -
  note g0 = newFields_geometries(1) [of cfg p]
  from init_Returned(3) [OF assms(1) g0] assms(2) obtain pt where pt:
    "particles s = Some pt" "sampled_field (random h) (randomCalls p) (particleCount cfg) pt"
    "set (positions pt) \<subseteq> {- 25 .. 25}" "set (scales pt) \<subseteq> {0 .. 1}"
    by (auto simp: newFields_geometries)
  from pt(2) have c: "length (positions pt) = 3 * particleCount cfg"
    "length (scales pt) = particleCount cfg"
    "\<forall>i d. i < particleCount cfg \<and> d < 3 \<longrightarrow>
       positions pt ! (3 * i + d)
         = fround (fl64 (fl64 (random h (randomCalls p + 4 * i + d) - 1 / 2) * 50))"
    "\<forall>i < particleCount cfg. scales pt ! i = fround (random h (randomCalls p + 4 * i + 3))"
    by (simp_all add: sampled_field_def)
  have k: "map meshGeometry (geometries s) = geometryKinds"
    by (rule init_meshGeometry [OF assms(1) g0])
  have l: "length (geometries (run es s)) = 4" for es
    using arg_cong [OF run_meshGeometry [of es s], of length] arg_cong [OF k, of length]
    by (simp add: length_geometryKinds)
  from l [of "[]"] have l0: "length (geometries s) = 4" by simp
  from pt(3,4) have r: "\<forall>c \<in> set (positions pt). - 25 \<le> c \<and> c \<le> 25"
    "\<forall>c \<in> set (scales pt). 0 \<le> c \<and> c \<le> 1"
    by auto
  have e: "\<forall>es. map_option positions (particles (run es s)) = Some (positions pt)
                  \<and> map_option scales (particles (run es s)) = Some (scales pt)
                  \<and> map meshGeometry (geometries (run es s)) = geometryKinds
                  \<and> length (geometries (run es s)) = 4"
    using pt(1) k l by (simp add: run_particles run_meshGeometry)
  show ?thesis
    by (intro exI [of _ pt] conjI pt(1) c r k l0 e)
qed

section \<open>Pointer smoothing\<close>

lemma run_append: "run (es @ es') s = run es' (run es s)"
  by (induction es arbitrary: s) simp_all

lemma ticks_Suc: "run (ticks hs (Suc n)) s = state_of (animate (hs n) (run (ticks hs n) s))"
  by (simp add: ticks_def run_append)

lemma steer_Num:
  assumes px: "\<bar>px\<bar> \<le> 2 powi 1000" and c: "\<bar>c\<bar> \<le> 2 powi 1001"
    and k0: "0 \<le> fl64 k" and k1: "fl64 k < 1"
  shows "steer (Num px) k (Num c)
           = Num (fl64 (c + fl64 (fl64 (fl64 (px * 2) - c) * fl64 k)))"
proof -
  define B :: real where "B = 2 powi 1000"
  have B: "2 powi 1001 = 2 * B" "2 powi 1002 = 4 * B" "2 powi 1003 = 8 * B"
    using two_powi_add [of 1 1000] two_powi_add [of 2 1000] two_powi_add [of 3 1000]
    by (simp_all add: B_def)
  have B0: "0 < B" unfolding B_def by (rule two_powi_pos)
  have below: "binary64 (Num x) = Num (fl64 x)" if "\<bar>x\<bar> \<le> 8 * B" for x
    using that unfolding B(3) [symmetric] by (rule binary64_Num)
  have keep: "\<bar>fl64 x\<bar> \<le> 2 * B" if "\<bar>x\<bar> \<le> 2 * B" for x
    using that unfolding B(1) [symmetric] by (rule fl64_abs_le [rotated]) simp
  have keep': "\<bar>fl64 x\<bar> \<le> 4 * B" if "\<bar>x\<bar> \<le> 4 * B" for x
    using that unfolding B(2) [symmetric] by (rule fl64_abs_le [rotated]) simp
  let ?t = "fl64 (px * 2)"
  let ?d = "fl64 (?t - c)"
  let ?q = "fl64 (?d * fl64 k)"
  from px have pxB: "\<bar>px\<bar> \<le> B" by (simp only: B_def)
  from c have cB: "\<bar>c\<bar> \<le> 2 * B" by (simp only: B(1))
  from pxB have p2: "\<bar>px * 2\<bar> \<le> 2 * B" by (simp add: abs_mult)
  then have t: "\<bar>?t\<bar> \<le> 2 * B" by (rule keep)
  from t cB have d0: "\<bar>?t - c\<bar> \<le> 4 * B" by linarith
  then have d: "\<bar>?d\<bar> \<le> 4 * B" by (rule keep')
  have "\<bar>?d * fl64 k\<bar> \<le> \<bar>?d\<bar> * 1"
    unfolding abs_mult using k0 k1 by (intro mult_left_mono) simp_all
  with d have q0: "\<bar>?d * fl64 k\<bar> \<le> 4 * B" by simp
  then have q: "\<bar>?q\<bar> \<le> 4 * B" by (rule keep')
  have 1: "binary64 (Num (px * 2)) = Num ?t"
    using p2 B0 by (intro below) linarith
  have 2: "binary64 (Num (?t - c)) = Num ?d"
    using d0 B0 by (intro below) linarith
  have 3: "binary64 (Num k) = Num (fl64 k)"
    using k0 k1 by (simp add: binary64_def)
  have 4: "binary64 (Num (?d * fl64 k)) = Num ?q"
    using q0 B0 by (intro below) linarith
  have 5: "binary64 (Num (c + ?q)) = Num (fl64 (c + ?q))"
    using cB q B0 by (intro below) linarith
  show ?thesis
    by (simp add: steer_def jsub_def 1 2 3 4 5)
qed

lemma camera_path_representable:
  "representable 53 (- 1022) x0 \<Longrightarrow> representable 53 (- 1022) (camera_path t k x0 n)"
  by (cases n) (simp_all add: fl64_representable)

lemma camera_path_up:
  assumes "representable 53 (- 1022) t" and "representable 53 (- 1022) x0"
    and "representable 53 (- 1022) k" and "0 \<le> k" and "k < 1" and "x0 \<le> t"
  shows "x0 \<le> camera_path t k x0 n \<and> camera_path t k x0 n \<le> camera_path t k x0 (Suc n)
       \<and> camera_path t k x0 (Suc n) \<le> t"
proof (induction n)
  case 0
  from steer_between(1) [OF assms(1,2,3,4,5,6)] show ?case by simp
next
  case (Suc n)
  then have le: "camera_path t k x0 (Suc n) \<le> t" and x: "x0 \<le> camera_path t k x0 (Suc n)"
    by simp_all
  from steer_between(1) [OF assms(1) camera_path_representable [OF assms(2)] assms(3,4,5) le]
  show ?case using x by simp
qed

lemma camera_path_down:
  assumes "representable 53 (- 1022) t" and "representable 53 (- 1022) x0"
    and "representable 53 (- 1022) k" and "0 \<le> k" and "k < 1" and "t \<le> x0"
  shows "t \<le> camera_path t k x0 (Suc n) \<and> camera_path t k x0 (Suc n) \<le> camera_path t k x0 n
       \<and> camera_path t k x0 n \<le> x0"
proof (induction n)
  case 0
  from steer_between(2) [OF assms(1,2,3,4,5,6)] show ?case by simp
next
  case (Suc n)
  then have le: "t \<le> camera_path t k x0 (Suc n)" and x: "camera_path t k x0 (Suc n) \<le> x0"
    by simp_all
  from steer_between(2) [OF assms(1) camera_path_representable [OF assms(2)] assms(3,4,5) le]
  show ?case using x by simp
qed

text \<open>
  With the pointer held, the coordinate moves monotonically, stays between where it
  started and the target, and so has a limit.
\<close>

lemma camera_path_monotone:
  assumes t: "representable 53 (- 1022) t" and x0: "representable 53 (- 1022) x0"
    and k: "representable 53 (- 1022) k" "0 \<le> k" "k < 1"
  shows "monoseq (camera_path t k x0)"
    and "min x0 t \<le> camera_path t k x0 n \<and> camera_path t k x0 n \<le> max x0 t"
    and "convergent (camera_path t k x0)"
proof -
  have b: "min x0 t \<le> camera_path t k x0 n \<and> camera_path t k x0 n \<le> max x0 t" for n
  proof (cases "x0 \<le> t")
    case True
    from camera_path_up [OF t x0 k True, of n] True show ?thesis by simp
  next
    case False
    then have "t \<le> x0" by simp
    from camera_path_down [OF t x0 k this, of n] this show ?thesis by simp
  qed
  show m: "monoseq (camera_path t k x0)"
  proof (cases "x0 \<le> t")
    case True
    from camera_path_up [OF t x0 k True] show ?thesis
      unfolding monoseq_Suc by blast
  next
    case False
    then have "t \<le> x0" by simp
    from camera_path_down [OF t x0 k this] show ?thesis
      unfolding monoseq_Suc by blast
  qed
  show "min x0 t \<le> camera_path t k x0 n \<and> camera_path t k x0 n \<le> max x0 t" by (rule b)
  have "norm (camera_path t k x0 n) \<le> max \<bar>x0\<bar> \<bar>t\<bar>" for n
    using b [of n] by (simp add: min_def max_def abs_if split: if_splits)
  then have "Bseq (camera_path t k x0)" by (rule BseqI')
  then show "convergent (camera_path t k x0)" using m by (rule Bseq_monoseq_convergent)
qed

lemma camera_path_abs:
  assumes x0: "representable 53 (- 1022) x0" and k: "0 \<le> fl64 k" "fl64 k < 1"
    and px: "\<bar>px\<bar> \<le> 2 powi 1000" and a: "\<bar>x0\<bar> \<le> 2 powi 1000"
  shows "\<bar>camera_path (fl64 (px * 2)) (fl64 k) x0 n\<bar> \<le> 2 powi 1001"
proof -
  define B :: real where "B = 2 powi 1000"
  have B: "2 powi 1001 = 2 * B"
    using two_powi_add [of 1 1000] by (simp add: B_def)
  have B0: "0 < B" unfolding B_def by (rule two_powi_pos)
  from px have "\<bar>px\<bar> \<le> B" by (simp only: B_def)
  then have "\<bar>px * 2\<bar> \<le> 2 * B" by (simp add: abs_mult)
  then have "\<bar>fl64 (px * 2)\<bar> \<le> 2 * B"
    unfolding B [symmetric] by (rule fl64_abs_le [rotated]) simp
  moreover from a have "\<bar>x0\<bar> \<le> B" by (simp only: B_def)
  moreover note camera_path_monotone(2)
    [OF fl64_representable x0 fl64_representable k, of "px * 2" n]
  ultimately have "\<bar>camera_path (fl64 (px * 2)) (fl64 k) x0 n\<bar> \<le> 2 * B"
    using B0 by (simp add: min_def max_def abs_if split: if_splits)
  then show ?thesis by (simp only: B)
qed

text \<open>
  With the target 1 and the factor of the script, no step from a double in
  \<open>[0, 1 - 24 / 2 ^ 53]\<close> leaves that interval.
\<close>

lemma steer_barrier:
  assumes c: "representable 53 (- 1022) c" and c0: "0 \<le> c" and cL: "c \<le> 1 - 24 / 2 ^ 53"
  shows "fl64 (c + fl64 (fl64 (1 - c) * fl64 (2 / 100))) \<le> 1 - 24 / 2 ^ 53"
proof (cases "c = 1 - 24 / 2 ^ 53")
  case True
  show ?thesis unfolding True by (simp only: stall_step order_refl)
next
  case False
  let ?L = "1 - 24 / 2 ^ 53 :: real"
  let ?k = "5764607523034235 / 2 ^ 58 :: real"
  have p: "0 < (53::nat)" by simp
  have RL: "representable 53 (- 1022) ?L"
    using representable_scaled [of 9007199254740968 53 "- 1022" "- 53"]
    by (simp add: power_int_minus)
  have R0: "representable 53 (- 1022) 0" and R1: "representable 53 (- 1022) 1"
    using representable_int [of 0 53 "- 1022"] representable_int [of 1 53 "- 1022"] by simp_all
  define d where "d = fl64 (1 - c)"
  define q where "q = fl64 (d * ?k)"
  have d0: "0 \<le> d" and d1: "d \<le> 1"
    unfolding d_def fl64_def using c0 cL
    by (intro round_to_ge [OF R0 p] round_to_le [OF R1 p]; simp)+
  have sum: "c + q \<le> ?L"
  proof (cases "c < 1 / 2")
    case True
    have R32: "representable 53 (- 1022) (1 / 32)"
      using representable_scaled [of 1 53 "- 1022" "- 5"] by (simp add: power_int_minus)
    have "d * ?k \<le> 1 * (1 / 32)"
      using d0 d1 by (intro mult_mono) simp_all
    then have "q \<le> 1 / 32"
      unfolding q_def fl64_def by (intro round_to_le [OF R32 p]) simp
    with True show ?thesis by simp
  next
    case half: False
    from cL have "c < 1" by simp
    with double_below_one [OF c] half obtain N where N: "c = of_int N / 2 ^ 53" by auto
    from False cL N have "of_int N / 2 ^ 53 < (9007199254740968 / 2 ^ 53 :: real)"
      by simp
    then have "(of_int N :: real) < of_int 9007199254740968" by simp
    then have Nlt: "N < 9007199254740968" by (simp only: of_int_less_iff)
    from half N have "(of_int 0 :: real) < of_int N" by simp
    then have Npos: "0 < N" by (simp only: of_int_less_iff)
    from Nlt have "(of_int N :: real) \<le> of_int 9007199254740967" by (simp only: of_int_le_iff)
    then have cb: "c \<le> 9007199254740967 / 2 ^ 53" by (simp add: N divide_right_mono)
    have dN: "1 - c = of_int (2 ^ 53 - N) * 2 powi (- 53)"
      by (simp add: N power_int_minus field_simps)
    have "fl64 (of_int (2 ^ 53 - N) * 2 powi (- 53)) = of_int (2 ^ 53 - N) * 2 powi (- 53)"
      using Npos Nlt by (intro fl64_fixed) simp_all
    then have de: "d = 1 - c" by (simp only: d_def dN)
    have R: "representable 53 (- 1022) (of_int (2 ^ 53 - N) * 2 powi (- 58))"
      using Npos Nlt by (intro representable_scaled) simp_all
    have d32: "of_int (2 ^ 53 - N) * 2 powi (- 58) = d / 32"
      unfolding de dN by (simp add: power_int_minus)
    from R have rd: "representable 53 (- 1022) (d / 32)" by (simp only: d32)
    have "d * ?k \<le> d * (1 / 32)"
      using d0 by (intro mult_left_mono) simp_all
    then have "d * ?k \<le> d / 32" by simp
    then have "q \<le> d / 32"
      unfolding q_def fl64_def by (rule round_to_le [OF rd p])
    with de cb show ?thesis by simp
  qed
  have "fl64 (c + q) \<le> ?L"
    unfolding fl64_def using sum by (rule round_to_le [OF RL p])
  then show ?thesis by (simp only: q_def d_def mouseEffect_double)
qed

lemma camera_path_barrier:
  "camera_path 1 (fl64 (2 / 100)) 0 n \<le> 1 - 24 / 2 ^ 53"
proof (induction n)
  case 0
  show ?case by simp
next
  case (Suc n)
  have R0: "representable 53 (- 1022) 0" and R1: "representable 53 (- 1022) 1"
    using representable_int [of 0 53 "- 1022"] representable_int [of 1 53 "- 1022"] by simp_all
  have k: "0 \<le> fl64 (2 / 100)" "fl64 (2 / 100) < 1"
    unfolding mouseEffect_double by simp_all
  from camera_path_monotone(2) [OF R1 R0 fl64_representable k, of n]
  have "0 \<le> camera_path 1 (fl64 (2 / 100)) 0 n" by simp
  from steer_barrier [OF camera_path_representable [OF R0] this Suc]
  show ?case by simp
qed

lemma camera_after_ticks:
  assumes "isActive s" and "camera s = Some cam" and "scene s \<noteq> None" and "renderer s \<noteq> None"
    and "mouse s = (Num px, Num py)" and "camX cam = Num x0" and "camY cam = Num y0"
    and "\<forall>n. \<not> documentHidden (hs n)"
    and k: "0 \<le> fl64 (mouseEffect (config s))" "fl64 (mouseEffect (config s)) < 1"
    and x0: "representable 53 (- 1022) x0" and y0: "representable 53 (- 1022) y0"
    and px: "\<bar>px\<bar> \<le> 2 powi 1000" and py: "\<bar>py\<bar> \<le> 2 powi 1000"
    and ax: "\<bar>x0\<bar> \<le> 2 powi 1000" and ay: "\<bar>y0\<bar> \<le> 2 powi 1000"
  shows "isActive (run (ticks hs n) s) \<and> scene (run (ticks hs n) s) \<noteq> None
       \<and> renderer (run (ticks hs n) s) \<noteq> None
       \<and> mouse (run (ticks hs n) s) = (Num px, Num py)
       \<and> config (run (ticks hs n) s) = config s
       \<and> (\<exists>c. camera (run (ticks hs n) s) = Some c
              \<and> camX c = Num (camera_path (fl64 (px * 2)) (fl64 (mouseEffect (config s))) x0 n)
              \<and> camY c = Num (camera_path (fl64 (py * 2)) (fl64 (mouseEffect (config s))) y0 n)
              \<and> (0 < n \<longrightarrow> lookAtTarget c = Some (Vector3 0 0 0)))"
proof (induction n)
  case 0
  with assms show ?case by (simp add: ticks_def)
next
  case (Suc n)
  let ?k = "mouseEffect (config s)"
  let ?x = "run (ticks hs n) s"
  let ?cx = "camera_path (fl64 (px * 2)) (fl64 ?k) x0"
  let ?cy = "camera_path (fl64 (py * 2)) (fl64 ?k) y0"
  from Suc obtain c where c: "camera ?x = Some c" "camX c = Num (?cx n)" "camY c = Num (?cy n)"
    by blast
  from Suc have x: "isActive ?x" "scene ?x \<noteq> None" "renderer ?x \<noteq> None"
    "mouse ?x = (Num px, Num py)" "config ?x = config s"
    by simp_all
  from assms(8) have nh: "\<not> documentHidden (hs n)" by blast
  note cam = animate_camera [OF x(1) nh c(1) x(2)]
  have sx: "steer (Num px) ?k (Num (?cx n)) = Num (?cx (Suc n))"
    using steer_Num [OF px camera_path_abs [OF x0 k px ax] k, of n] by simp
  have sy: "steer (Num py) ?k (Num (?cy n)) = Num (?cy (Suc n))"
    using steer_Num [OF py camera_path_abs [OF y0 k py ay] k, of n] by simp
  show ?case
    unfolding ticks_Suc
    using x c(2,3) sx sy
    by (simp add: animate_frame animate_not_None cam del: camera_path.simps)
qed

text \<open>
  C3, as amended. A tick that does its work moves each camera coordinate \<open>c\<close> to
  \<open>c + (pointer * 2 - c) * mouseEffect\<close>, each of the four operations rounded to
  binary64, and aims the camera at the origin. With the pointer held at \<open>(px, py)\<close>
  and \<open>mouseEffect\<close> a double in \<open>(0, 1)\<close>, the camera positions over repeated ticks
  are monotone in each coordinate, stay between the starting coordinate and the
  target \<open>pointer * 2\<close>, and converge; the limit need not be the target.
\<close>

theorem camera_converges:
  assumes "isActive s" and "camera s = Some cam" and "scene s \<noteq> None" and "renderer s \<noteq> None"
    and "mouse s = (Num px, Num py)" and "camX cam = Num x0" and "camY cam = Num y0"
    and "\<forall>n. \<not> documentHidden (hs n)"
    and "0 < fl64 (mouseEffect (config s))" and "fl64 (mouseEffect (config s)) < 1"
    and "representable 53 (- 1022) x0" and "representable 53 (- 1022) y0"
    and "\<bar>px\<bar> \<le> 2 ^ 1000" and "\<bar>py\<bar> \<le> 2 ^ 1000"
    and "\<bar>x0\<bar> \<le> 2 ^ 1000" and "\<bar>y0\<bar> \<le> 2 ^ 1000"
  shows "\<exists>xs ys.
           (\<forall>n. \<exists>c. camera (run (ticks hs n) s) = Some c \<and> camX c = Num (xs n) \<and> camY c = Num (ys n)
                  \<and> (0 < n \<longrightarrow> lookAtTarget c = Some (Vector3 0 0 0)))
         \<and> xs 0 = x0 \<and> ys 0 = y0
         \<and> (\<forall>n. xs (Suc n)
                = fl64 (xs n + fl64 (fl64 (fl64 (px * 2) - xs n) * fl64 (mouseEffect (config s)))))
         \<and> (\<forall>n. ys (Suc n)
                = fl64 (ys n + fl64 (fl64 (fl64 (py * 2) - ys n) * fl64 (mouseEffect (config s)))))
         \<and> monoseq xs \<and> monoseq ys
         \<and> (\<forall>n. min x0 (fl64 (px * 2)) \<le> xs n \<and> xs n \<le> max x0 (fl64 (px * 2)))
         \<and> (\<forall>n. min y0 (fl64 (py * 2)) \<le> ys n \<and> ys n \<le> max y0 (fl64 (py * 2)))
         \<and> convergent xs \<and> convergent ys"
proof -
  let ?k = "fl64 (mouseEffect (config s))"
  let ?xs = "camera_path (fl64 (px * 2)) ?k x0" and ?ys = "camera_path (fl64 (py * 2)) ?k y0"
  have pw: "(2::real) ^ 1000 = 2 powi 1000" by simp
  have k0: "0 \<le> ?k" using assms(9) by simp
  note b = assms(13-16) [unfolded pw]
  have 1: "\<forall>n. \<exists>c. camera (run (ticks hs n) s) = Some c \<and> camX c = Num (?xs n) \<and> camY c = Num (?ys n)
          \<and> (0 < n \<longrightarrow> lookAtTarget c = Some (Vector3 0 0 0))"
    using camera_after_ticks [OF assms(1-8) k0 assms(10-12) b] by blast
  have 2: "?xs 0 = x0" "?ys 0 = y0"
    by simp_all
  have 3: "\<forall>n. ?xs (Suc n) = fl64 (?xs n + fl64 (fl64 (fl64 (px * 2) - ?xs n) * ?k))"
    "\<forall>n. ?ys (Suc n) = fl64 (?ys n + fl64 (fl64 (fl64 (py * 2) - ?ys n) * ?k))"
    by simp_all
  note X = camera_path_monotone [OF fl64_representable assms(11) fl64_representable k0 assms(10)]
  note Y = camera_path_monotone [OF fl64_representable assms(12) fl64_representable k0 assms(10)]
  have 4: "monoseq ?xs" "monoseq ?ys"
    by (rule X(1) Y(1))+
  have 5: "\<forall>n. min x0 (fl64 (px * 2)) \<le> ?xs n \<and> ?xs n \<le> max x0 (fl64 (px * 2))"
    "\<forall>n. min y0 (fl64 (py * 2)) \<le> ?ys n \<and> ?ys n \<le> max y0 (fl64 (py * 2))"
    by (intro allI X(2) Y(2))+
  have 6: "convergent ?xs" "convergent ?ys"
    by (rule X(3) Y(3))+
  show ?thesis
    by (intro exI [of _ ?xs] exI [of _ ?ys] conjI 1 2 3 4 5 6)
qed

section \<open>The outcome of the constructor\<close>




lemmas construct_defs = demo_host_def blank_page_def default_config_def
  Background3D_def catch_def init_def createSurface_def newFields_def isWebGLAvailable_def
  Float32Array_def createParticles_def createFloatingGeometries_def geometryKinds_def
  makeMesh_def addEventListeners_def addListener_def animate_def requestAnimationFrame_def
  getDelta_def getElapsedTime_def Clock_def animateMesh_def
  PerspectiveCamera_def updateProjectionMatrix_def jdiv_dim_def jsub_def Let_def
  case_prod_beta

lemmas dispose_defs = dispose_def cancelAnimationFrame_def disposeMesh_def disposeParticles_def
  disposeRenderer_def removeListener_def

lemma fillParticles_calls:
  "snd (snd (fillParticles rnd n i (ps, ss, k))) = k + 4 * (n - i)"
  using fillParticles_length [of rnd n i ps ss k] by (metis prod.collapse)

lemma steer_origin:
  assumes "0 \<le> k" and "k \<le> 1"
  shows "steer (Num 0) k (Num 0) = Num 0"
proof -
  have "representable 53 (- 1022) 0" "representable 53 (- 1022) 1"
    using representable_int [of 0 53 "- 1022"] representable_int [of 1 53 "- 1022"] by simp_all
  with assms have "0 \<le> fl64 k" "fl64 k \<le> 1"
    unfolding fl64_def by (simp_all add: round_to_ge round_to_le)
  then have "binary64 (Num k) = Num (fl64 k)"
    by (simp add: binary64_def)
  moreover have "binary64 (Num 0) = Num 0"
    by (simp add: binary64_def fl64_def round_to_def)
  ultimately show ?thesis
    by (simp add: steer_def jsub_def)
qed

text \<open>
  C2. \<^verbatim>\<open>dispose\<close> on the controller that the constructor builds, with its 2000
  particles and the four geometry kinds: the flag is cleared, the pending tick
  cancelled, every geometry and material and the renderer released once, the canvas
  detached; but the \<open>resize\<close> listener that \<^verbatim>\<open>addEventListeners\<close> registered is
  still on \<^verbatim>\<open>window\<close>, and the \<open>mousemove\<close> listener still on \<^verbatim>\<open>document\<close>.
\<close>

theorem dispose_keeps_resize_listener:
  "(case Background3D demo_host blank_page of
      Thrown e s \<Rightarrow> False
    | Returned s \<Rightarrow>
        windowListeners s = [(''resize'', BoundOnWindowResize 0)]
        \<and> (case dispose s of
              Thrown e s' \<Rightarrow> False
            | Returned s' \<Rightarrow>
                windowListeners s' = [(''resize'', BoundOnWindowResize 0)]
                \<and> documentListeners s' = [(''mousemove'', MouseMoveArrow 1)]
                \<and> \<not> isActive s' \<and> pendingFrames s' = [] \<and> containerChildren s' = []
                \<and> map geometryDisposed (geometries s') = [1, 1, 1, 1]
                \<and> map materialDisposed (geometries s') = [1, 1, 1, 1]
                \<and> map_option pointsGeometryDisposed (particles s') = Some 1
                \<and> map_option pointsMaterialDisposed (particles s') = Some 1
                \<and> map_option rendererDisposed (renderer s') = Some 1))"
  by (simp add: construct_defs dispose_defs upt_rec steer_origin)

section \<open>The theorems at the example inputs\<close>

lemma returned_state_of: "returned r \<Longrightarrow> r = Returned (state_of r)"
  by (cases r) simp_all

lemma demo_host_webgl: "isWebGLAvailable demo_host" "isWebGLAvailable near_one_host"
  "\<not> isWebGLAvailable no_webgl_host"
  by (simp_all add: isWebGLAvailable_def demo_host_def near_one_host_def no_webgl_host_def)

lemma demo_init: "init demo_host (newFields default_config blank_page) = Returned demo_controller"
  unfolding demo_controller_def
  by (rule returned_state_of)
    (simp add: init_returned_iff demo_host_webgl newFields_geometries,
      simp add: default_config_def demo_host_def)

lemma demo_random: "\<forall>j. 0 \<le> random demo_host j \<and> random demo_host j < 1"
  by (simp add: demo_host_def)

lemma demo_running:
  "isActive demo_controller" "camera demo_controller \<noteq> None" "scene demo_controller \<noteq> None"
  "renderer demo_controller \<noteq> None" "mouse demo_controller = (Num 0, Num 0)"
  "config demo_controller = default_config"
  using init_Returned [OF demo_init newFields_geometries(1)]
  by (simp_all add: newFields_geometries)


lemma onWindowResize_returns:
  "camera s \<noteq> None \<Longrightarrow> renderer s \<noteq> None \<Longrightarrow> returned (onWindowResize h s)"
  by (auto simp: onWindowResize_def Let_def split: option.splits)


lemma pointed_controller_fields:
  "mouse pointed_controller = (Num (1 / 2), Num (1 / 2))"
  "mouseEffect (config pointed_controller) = 2 / 100"
  "isActive pointed_controller" "scene pointed_controller \<noteq> None"
  "renderer pointed_controller \<noteq> None"
  "\<exists>cam. camera pointed_controller = Some cam \<and> camX cam = Num 0 \<and> camY cam = Num 0"
proof -
  show "mouse pointed_controller = (Num (1 / 2), Num (1 / 2))"
    by (simp add: pointed_controller_def onMouseMove_def demo_host_def jdiv_dim_def jsub_def)
  show "mouseEffect (config pointed_controller) = 2 / 100"
    by (simp add: pointed_controller_def onMouseMove_frame demo_running default_config_def)
  show "isActive pointed_controller" "scene pointed_controller \<noteq> None"
    "renderer pointed_controller \<noteq> None"
    using demo_running by (simp_all add: pointed_controller_def onMouseMove_frame)
  show "\<exists>cam. camera pointed_controller = Some cam \<and> camX cam = Num 0 \<and> camY cam = Num 0"
    by (simp add: pointed_controller_def onMouseMove_frame demo_controller_def construct_defs
        steer_origin)
qed

theorem camera_converges_witness:
  "\<exists>xs ys.
     (\<forall>n. \<exists>c. camera (run (ticks steady_hosts n) pointed_controller) = Some c
            \<and> camX c = Num (xs n) \<and> camY c = Num (ys n))
     \<and> xs 0 = 0 \<and> ys 0 = 0
     \<and> xs 1 = 5764607523034235 / 2 ^ 58 \<and> ys 1 = 5764607523034235 / 2 ^ 58
     \<and> monoseq xs \<and> monoseq ys
     \<and> (\<forall>n. 0 \<le> xs n \<and> xs n \<le> 1) \<and> (\<forall>n. 0 \<le> ys n \<and> ys n \<le> 1)
     \<and> convergent xs \<and> convergent ys"
proof -
  note P = pointed_controller_fields
  from P(6) obtain cam where c: "camera pointed_controller = Some cam" "camX cam = Num 0" "camY cam = Num 0"
    by blast
  have h: "\<forall>n. \<not> documentHidden (steady_hosts n)"
    by (simp add: steady_hosts_def demo_host_def)
  have k: "0 < fl64 (mouseEffect (config pointed_controller))"
    "fl64 (mouseEffect (config pointed_controller)) < 1"
    unfolding P(2) mouseEffect_double by simp_all
  have R0: "representable 53 (- 1022) 0"
    using representable_int [of 0 53 "- 1022"] by simp
  have b: "\<bar>1 / 2 :: real\<bar> \<le> 2 ^ 1000" "\<bar>0 :: real\<bar> \<le> 2 ^ 1000"
    by simp_all
  have t: "fl64 (1 / 2 * 2) = 1"
    using fl64_fixed [of 1 0] by simp
  from camera_converges [OF P(3) c(1) P(4,5,1) c(2,3) h k R0 R0 b(1,1,2,2)]
  obtain xs ys where r:
    "\<forall>n. \<exists>c. camera (run (ticks steady_hosts n) pointed_controller) = Some c
            \<and> camX c = Num (xs n) \<and> camY c = Num (ys n)
            \<and> (0 < n \<longrightarrow> lookAtTarget c = Some (Vector3 0 0 0))"
    "xs 0 = 0" "ys 0 = 0"
    "\<forall>n. xs (Suc n) = fl64 (xs n + fl64 (fl64 (fl64 (1 / 2 * 2) - xs n)
        * fl64 (mouseEffect (config pointed_controller))))"
    "\<forall>n. ys (Suc n) = fl64 (ys n + fl64 (fl64 (fl64 (1 / 2 * 2) - ys n)
        * fl64 (mouseEffect (config pointed_controller))))"
    "monoseq xs" "monoseq ys"
    "\<forall>n. min 0 (fl64 (1 / 2 * 2)) \<le> xs n \<and> xs n \<le> max 0 (fl64 (1 / 2 * 2))"
    "\<forall>n. min 0 (fl64 (1 / 2 * 2)) \<le> ys n \<and> ys n \<le> max 0 (fl64 (1 / 2 * 2))"
    "convergent xs" "convergent ys"
    by blast
  have t1: "fl64 1 = 1"
    using fl64_fixed [of 1 0] by simp
  have "fl64 (0 + fl64 (fl64 (fl64 (1 / 2 * 2) - 0) * fl64 (2 / 100))) = fl64 (2 / 100)"
    by (simp only: t diff_zero t1 mult_1 fl64_idem add_0)
  then have one: "fl64 (0 + fl64 (fl64 (fl64 (1 / 2 * 2) - 0) * fl64 (2 / 100)))
      = 5764607523034235 / 2 ^ 58"
    by (simp only: mouseEffect_double)
  from r(4) [rule_format, of 0] have "xs 1 = 5764607523034235 / 2 ^ 58"
    by (simp only: r(2) P(2) one One_nat_def)
  moreover from r(5) [rule_format, of 0] have "ys 1 = 5764607523034235 / 2 ^ 58"
    by (simp only: r(3) P(2) one One_nat_def)
  moreover from r(8,9) have "\<forall>n. 0 \<le> xs n \<and> xs n \<le> 1" "\<forall>n. 0 \<le> ys n \<and> ys n \<le> 1"
    by (simp_all add: t1)
  ultimately show ?thesis using r(1,2,3,6,7,10,11)
    by (intro exI [of _ xs] exI [of _ ys]) auto
qed

text \<open>
  C3 as stated fails. On the controller that the constructor builds, with the
  pointer moved to \<open>(0.5, 0.5)\<close>, so the target is \<open>(1, 1)\<close>, and
  \<^verbatim>\<open>mouseEffect = 0.02\<close>, the camera never passes \<open>1 - 24 / 2 ^ 53\<close> in either
  coordinate, however many ticks run: the positions do not converge to the target.
\<close>

theorem camera_stays_below_target:
  "(\<forall>n. \<exists>c x y. camera (run (ticks steady_hosts n) pointed_controller) = Some c
         \<and> camX c = Num x \<and> camY c = Num y
         \<and> x \<le> 1 - 24 / 2 ^ 53 \<and> y \<le> 1 - 24 / 2 ^ 53)
   \<and> mouse pointed_controller = (Num (1 / 2), Num (1 / 2))
   \<and> mouseEffect (config pointed_controller) = 2 / 100
   \<and> (1 - 24 / 2 ^ 53 :: real) < 1 / 2 * 2"
proof -
  note P = pointed_controller_fields
  from P(6) obtain cam where c: "camera pointed_controller = Some cam" "camX cam = Num 0" "camY cam = Num 0"
    by blast
  have h: "\<forall>n. \<not> documentHidden (steady_hosts n)"
    by (simp add: steady_hosts_def demo_host_def)
  have k: "0 \<le> fl64 (mouseEffect (config pointed_controller))"
    "fl64 (mouseEffect (config pointed_controller)) < 1"
    unfolding P(2) mouseEffect_double by simp_all
  have R0: "representable 53 (- 1022) 0"
    using representable_int [of 0 53 "- 1022"] by simp
  have pw: "(2::real) ^ 1000 = 2 powi 1000" by simp
  have "\<bar>1 / 2 :: real\<bar> \<le> 2 ^ 1000" "\<bar>0 :: real\<bar> \<le> 2 ^ 1000"
    by simp_all
  then have b: "\<bar>1 / 2 :: real\<bar> \<le> 2 powi 1000" "\<bar>0 :: real\<bar> \<le> 2 powi 1000"
    by (simp_all only: pw)
  have t: "fl64 (1 / 2 * 2) = 1"
    using fl64_fixed [of 1 0] by simp
  have "\<exists>c x y. camera (run (ticks steady_hosts n) pointed_controller) = Some c
         \<and> camX c = Num x \<and> camY c = Num y
         \<and> x \<le> 1 - 24 / 2 ^ 53 \<and> y \<le> 1 - 24 / 2 ^ 53" for n
    using camera_after_ticks [OF P(3) c(1) P(4,5,1) c(2,3) h k R0 R0 b(1,1,2,2), of n]
      camera_path_barrier [of n]
    unfolding P(2) t by blast
  then show ?thesis using P(1,2) by simp
qed


theorem animate_disposed_hidden_witness:
  "run (map Tick [demo_host, hidden_host]) (state_of (dispose demo_controller))
     = state_of (dispose demo_controller)
   \<and> animate demo_host (state_of (dispose demo_controller))
       = Returned (state_of (dispose demo_controller))
   \<and> animate hidden_host demo_controller
       = Returned (demo_controller\<lparr>framesRequested := framesRequested demo_controller + 1,
           pendingFrames := pendingFrames demo_controller @ [framesRequested demo_controller + 1],
           frameId := Some (framesRequested demo_controller + 1)\<rparr>)"
proof -
  have h: "isActive demo_controller \<and> documentHidden hidden_host"
    by (simp add: demo_running hidden_host_def)
  from animate_disposed_hidden [of "[demo_host, hidden_host]" demo_controller demo_host]
  have 1: "run (map Tick [demo_host, hidden_host]) (state_of (dispose demo_controller))
     = state_of (dispose demo_controller)"
    by blast
  from animate_disposed_hidden [of "[]" "state_of (dispose demo_controller)" demo_host]
    dispose_inactive [of demo_controller]
  have 2: "animate demo_host (state_of (dispose demo_controller))
       = Returned (state_of (dispose demo_controller))"
    by blast
  from animate_disposed_hidden [of "[]" demo_controller hidden_host] h
  have 3: "animate hidden_host demo_controller
       = Returned (demo_controller\<lparr>framesRequested := framesRequested demo_controller + 1,
           pendingFrames := pendingFrames demo_controller @ [framesRequested demo_controller + 1],
           frameId := Some (framesRequested demo_controller + 1)\<rparr>)"
    by blast
  from 1 2 3 show ?thesis by blast
qed

theorem onWindowResize_idempotent_witness:
  "onWindowResize demo_host (state_of (onWindowResize demo_host demo_controller))
     = onWindowResize demo_host demo_controller
   \<and> returned (onWindowResize demo_host demo_controller)
   \<and> (\<exists>cam r. camera (state_of (onWindowResize demo_host demo_controller)) = Some cam
         \<and> aspect cam = Num (4 / 3)
         \<and> renderer (state_of (onWindowResize demo_host demo_controller)) = Some r
         \<and> rendererSize r = (800, 600))"
proof -
  have r: "returned (onWindowResize demo_host demo_controller)"
    by (intro onWindowResize_returns demo_running)
  have d: "jdiv_dim (real (innerWidth demo_host)) (innerHeight demo_host) = Num (4 / 3)"
    "innerWidth demo_host = 800" "innerHeight demo_host = 600"
    by (simp_all add: jdiv_dim_def demo_host_def)
  from onWindowResize_idempotent [of demo_host demo_controller] r d show ?thesis
    by simp
qed

theorem particle_field_fixed_witness:
  "\<exists>pt. particles demo_controller = Some pt
      \<and> length (positions pt) = 6000 \<and> length (scales pt) = 2000
      \<and> positions pt ! 0 = - (25 / 2) \<and> scales pt ! 0 = 1 / 4
      \<and> map_option positions (particles (run demo_events demo_controller)) = Some (positions pt)
      \<and> map_option scales (particles (run demo_events demo_controller)) = Some (scales pt)
      \<and> length (geometries (run demo_events demo_controller)) = 4"
proof -
  have n: "particleCount default_config = 2000"
    by (simp add: default_config_def)
  have r: "random demo_host j = 1 / 4" for j
    by (simp add: demo_host_def)
  from particle_field_fixed [OF demo_init demo_random] obtain pt where pt:
    "particles demo_controller = Some pt"
    "length (positions pt) = 3 * particleCount default_config"
    "length (scales pt) = particleCount default_config"
    "\<forall>i d. i < particleCount default_config \<and> d < 3 \<longrightarrow>
       positions pt ! (3 * i + d)
         = fround (fl64 (fl64 (random demo_host (randomCalls blank_page + 4 * i + d) - 1 / 2) * 50))"
    "\<forall>i < particleCount default_config.
       scales pt ! i = fround (random demo_host (randomCalls blank_page + 4 * i + 3))"
    "\<forall>es. map_option positions (particles (run es demo_controller)) = Some (positions pt)
        \<and> map_option scales (particles (run es demo_controller)) = Some (scales pt)
        \<and> map meshGeometry (geometries (run es demo_controller)) = geometryKinds
        \<and> length (geometries (run es demo_controller)) = 4"
    by blast
  have z: "0 < particleCount default_config \<and> (0::nat) < 3"
    by (simp add: n)
  with pt(4) have "positions pt ! (3 * 0 + 0)
      = fround (fl64 (fl64 (random demo_host (randomCalls blank_page + 4 * 0 + 0) - 1 / 2) * 50))"
    by blast
  then have "positions pt ! 0 = - (25 / 2)"
    by (simp only: r quarter_samples mult_0_right add_0_right)
  moreover from z pt(5) have "scales pt ! 0 = fround (random demo_host (randomCalls blank_page + 4 * 0 + 3))"
    by blast
  then have "scales pt ! 0 = 1 / 4"
    by (simp only: r quarter_samples)
  ultimately show ?thesis
    using pt(1,2,3) pt(6) [rule_format, of demo_events]
    by (intro exI [of _ pt]) (simp add: n)
qed

text \<open>
  C8 as stated fails: when \<^verbatim>\<open>Math.random()\<close> gives the double \<open>1 - 1 / 2 ^ 30\<close>,
  below 1, the scale stored in the \<^verbatim>\<open>Float32Array\<close> is 1 and the coordinate stored
  is 25, outside \<open>[0, 1)\<close> and \<open>[-25, 25)\<close>.
\<close>

theorem stored_samples_reach_bounds:
  "(case init near_one_host (newFields default_config blank_page) of
      Thrown e s \<Rightarrow> False
    | Returned s \<Rightarrow>
        (case particles s of
           None \<Rightarrow> False
         | Some pt \<Rightarrow> scales pt ! 0 = 1 \<and> positions pt ! 0 = 25))
   \<and> (\<forall>j. 0 \<le> random near_one_host j \<and> random near_one_host j < 1)"
proof -
  let ?s0 = "newFields default_config blank_page"
  have "returned (init near_one_host ?s0)"
    by (simp add: init_returned_iff demo_host_webgl newFields_geometries)
      (simp add: default_config_def demo_host_def near_one_host_def)
  then obtain s where s: "init near_one_host ?s0 = Returned s"
    by (cases "init near_one_host ?s0") simp_all
  have r: "random near_one_host j = 1 - 1 / 2 ^ 30" for j
    by (simp add: near_one_host_def)
  from init_Returned(3) [OF s newFields_geometries(1)] obtain pt where pt:
    "particles s = Some pt"
    "sampled_field (random near_one_host) (randomCalls blank_page) (particleCount default_config) pt"
    by (auto simp: newFields_geometries)
  have n: "0 < particleCount default_config" "(0::nat) < 3"
    by (simp_all add: default_config_def)
  from pt(2) n have "scales pt ! 0 = fround (1 - 1 / 2 ^ 30)"
    by (simp add: sampled_field_def r)
  moreover from pt(2) n have "positions pt ! (3 * 0 + 0) = fround (fl64 (fl64 (1 - 1 / 2 ^ 30 - 1 / 2) * 50))"
    unfolding sampled_field_def r by blast
  ultimately have "scales pt ! 0 = 1 \<and> positions pt ! 0 = 25"
    by (simp only: fround_near_one coordinate_near_one mult_0_right add_0_right)
  moreover have "\<forall>j. 0 \<le> random near_one_host j \<and> random near_one_host j < 1"
    by (simp add: r)
  ultimately show ?thesis by (simp add: s pt(1))
qed

theorem handleSubmit_guarded_witness:
  "isSubmitting (handleSubmit demo_form) \<and> submitDisabled (handleSubmit demo_form)
   \<and> (handleSubmit ^^ 3) (handleSubmit demo_form) = handleSubmit demo_form
   \<and> \<not> isSubmitting (submitResolved (handleSubmit demo_form))
   \<and> \<not> submitDisabled (submitResolved (handleSubmit demo_form))
   \<and> \<not> isSubmitting (handleSubmit bad_form) \<and> \<not> submitDisabled (handleSubmit bad_form)"
proof -
  have v: "fst (validateAll (setLoading True demo_form))"
    by (simp add: demo_form_def demo_field_def validateAll_def setLoading_def validateField_def
        checkField_def trim_def isWhiteSpace_def js_def emailRegex_def plus_def lit_def
        notSpaceAt_def setFieldStatus_def Let_def)
  have b: "\<not> fst (validateAll (setLoading True bad_form))"
    by (simp add: bad_form_def demo_form_def demo_field_def validateAll_def setLoading_def
        validateField_def checkField_def trim_def isWhiteSpace_def js_def emailRegex_def
        plus_def lit_def notSpaceAt_def setFieldStatus_def Let_def)
  have i: "\<not> isSubmitting demo_form" "\<not> isSubmitting bad_form"
    by (simp_all add: demo_form_def bad_form_def)
  from handleSubmit_guarded [of demo_form 3] v i(1)
  have "isSubmitting (handleSubmit demo_form) \<and> submitDisabled (handleSubmit demo_form)
   \<and> (handleSubmit ^^ 3) (handleSubmit demo_form) = handleSubmit demo_form
   \<and> \<not> isSubmitting (submitResolved (handleSubmit demo_form))
   \<and> \<not> submitDisabled (submitResolved (handleSubmit demo_form))"
    by simp
  moreover from handleSubmit_guarded [of bad_form 0] b i(2)
  have "\<not> isSubmitting (handleSubmit bad_form) \<and> \<not> submitDisabled (handleSubmit bad_form)"
    by simp
  ultimately show ?thesis by blast
qed



end
